theory Spec2Isabelle
  imports Main "HOL-Library.Word"
begin

section \<open>Ledger snapshots\<close>

text \<open>
  The client of the rock-paper-scissors arena reads two kinds of snapshot from the
  ledger. Their fields follow the outputs of the contract's \<^verbatim>\<open>getMatch\<close> and
  \<^verbatim>\<open>getRound\<close> in the order of the ABI table. Numbers that the ABI types as
  \<^verbatim>\<open>uint8\<close> or \<^verbatim>\<open>uint256\<close> are natural numbers; addresses and
  \<^verbatim>\<open>bytes32\<close> values arrive as hexadecimal strings and are compared as strings,
  as the source does.
\<close>

record match_snapshot =
  player1 :: string
  player2 :: string
  entryFee :: nat
  pot :: nat
  state :: nat
  winsP1 :: nat
  winsP2 :: nat
  currentRound :: nat
  createdAt :: nat
  startedAt :: nat

text \<open>
  The outcome resolver receives only the first four fields of a round; the full
  snapshot extends them, so either can be passed where the fragments are expected.
\<close>

record round_fragments =
  commitP1 :: string
  commitP2 :: string
  choiceP1 :: nat
  choiceP2 :: nat

record round_snapshot = round_fragments +
  phase :: nat
  phaseDeadline :: nat
  winner :: string

definition MatchState_WAITING :: nat where "MatchState_WAITING = 0"
definition MatchState_ACTIVE :: nat where "MatchState_ACTIVE = 1"
definition MatchState_COMPLETE :: nat where "MatchState_COMPLETE = 2"
definition MatchState_CANCELLED :: nat where "MatchState_CANCELLED = 3"

definition RoundPhase_COMMIT :: nat where "RoundPhase_COMMIT = 0"
definition RoundPhase_REVEAL :: nat where "RoundPhase_REVEAL = 1"
definition RoundPhase_COMPLETE :: nat where "RoundPhase_COMPLETE = 2"

definition ZERO_ADDRESS :: string where
  "ZERO_ADDRESS = ''0x0000000000000000000000000000000000000000''"

definition ZERO_BYTES32 :: string where
  "ZERO_BYTES32 = ''0x0000000000000000000000000000000000000000000000000000000000000000''"

definition WINS_REQUIRED :: nat where "WINS_REQUIRED = 3"

section \<open>Outcome resolver\<close>

text \<open>
  \<^verbatim>\<open>determineMatchWinner(match, lastRound?)\<close>: the result \<^verbatim>\<open>string | null\<close> is an
  option, the optional second argument is an option. The order of the tests is the
  order of the source's \<^verbatim>\<open>return\<close> statements; \<open>fallback\<close> names the two
  comparisons of the win counts that the source reaches whenever no earlier
  \<^verbatim>\<open>return\<close> fired.
\<close>

definition determineMatchWinner ::
  "match_snapshot \<Rightarrow> 'a round_fragments_scheme option \<Rightarrow> string option" where
  "determineMatchWinner match lastRound =
    (if state match \<noteq> MatchState_COMPLETE then None
     else if winsP1 match \<ge> WINS_REQUIRED then Some (player1 match)
     else if winsP2 match \<ge> WINS_REQUIRED then Some (player2 match)
     else
       (let fallback =
          (if winsP1 match > winsP2 match then Some (player1 match)
           else if winsP2 match > winsP1 match then Some (player2 match)
           else None)
        in case lastRound of
          None \<Rightarrow> fallback
        | Some lr \<Rightarrow>
            (let p1Committed = (commitP1 lr \<noteq> ZERO_BYTES32);
                 p2Committed = (commitP2 lr \<noteq> ZERO_BYTES32)
             in if p1Committed \<and> \<not> p2Committed then Some (player1 match)
                else if p2Committed \<and> \<not> p1Committed then Some (player2 match)
                else if p1Committed \<and> p2Committed then
                  (let p1Revealed = (choiceP1 lr > 0);
                       p2Revealed = (choiceP2 lr > 0)
                   in if p1Revealed \<and> \<not> p2Revealed then Some (player1 match)
                      else if p2Revealed \<and> \<not> p1Revealed then Some (player2 match)
                      else fallback)
                else fallback)))"

section \<open>Secret store\<close>

text \<open>
  \<^verbatim>\<open>Choice\<close> is the four-valued constant table of the source; \<^verbatim>\<open>ChoiceType\<close>
  ranges over its values. A blinding value is a \<^verbatim>\<open>bytes32\<close>: the source holds it as
  \<^verbatim>\<open>0x\<close> followed by the 64 hexadecimal digits of 32 random bytes, the model as the
  256-bit word those digits denote.
\<close>

datatype ChoiceType = None_choice | Rock | Paper | Scissors

fun Choice :: "ChoiceType \<Rightarrow> nat" where
  "Choice None_choice = 0"
| "Choice Rock = 1"
| "Choice Paper = 2"
| "Choice Scissors = 3"

record StoredSecret =
  choice :: ChoiceType
  secret :: "256 word"

text \<open>
  The key of a stored secret is the template string
  \<^verbatim>\<open>`${this.chainId}-${matchId}-${match.currentRound}`\<close>; \<open>show_nat\<close> is the decimal
  rendering JavaScript gives a non-negative integer.
\<close>

definition digit_char :: "nat \<Rightarrow> char" where
  "digit_char d = ''0123456789'' ! d"

function show_nat :: "nat \<Rightarrow> string" where
  "show_nat n = (if n < 10 then [digit_char n] else show_nat (n div 10) @ [digit_char (n mod 10)])"
  by pat_completeness auto
termination
  by (relation "measure id") auto

declare show_nat.simps [simp del]

definition secretKey :: "nat \<Rightarrow> nat \<Rightarrow> nat \<Rightarrow> string" where
  "secretKey chain mid rnd = show_nat chain @ ''-'' @ show_nat mid @ ''-'' @ show_nat rnd"

section \<open>The agent and its environment\<close>

text \<open>
  Everything outside the process is an oracle indexed by a logical time, the number of
  suspension points (\<^verbatim>\<open>await\<close>) the agent has passed: what a ledger read returns
  (\<open>None\<close> when the RPC call throws), what happens to a submitted transaction, the
  local clock in milliseconds, the random sources, and whether the secrets file can be
  written. \<^verbatim>\<open>keccak256\<close> and \<^verbatim>\<open>formatUsdc\<close> are parameters: the first is a
  library function, the second formats through floating point.
\<close>

datatype receipt = NoReceipt | Status bool

datatype submission = Rejected | Accepted string receipt

datatype tx =
  CommitTx nat "256 word"
| RevealTx nat ChoiceType "256 word"
| ClaimTimeoutTx nat

record env =
  matchAt :: "nat \<Rightarrow> nat \<Rightarrow> match_snapshot option"
  roundAt :: "nat \<Rightarrow> nat \<Rightarrow> nat \<Rightarrow> round_snapshot option"
  blockAt :: "nat \<Rightarrow> nat option"
  txAt :: "nat \<Rightarrow> submission"
  clockAt :: "nat \<Rightarrow> int"
  randomBytesAt :: "nat \<Rightarrow> 256 word"
  randomIntAt :: "nat \<Rightarrow> nat"
  diskWritable :: "nat \<Rightarrow> bool"
  keccak256 :: "8 word list \<Rightarrow> 256 word"
  formatUsdc :: "nat \<Rightarrow> string"

text \<open>
  The agent: its read-only chain id and address, the in-memory \<^verbatim>\<open>secrets\<close> map, the
  content of the secrets file (\<open>disk\<close>), the logical time, and the calls of
  \<^verbatim>\<open>walletClient.writeContract\<close> made so far, each with the time of the call.
\<close>

record agent =
  chainId :: nat
  address :: string
  secrets :: "string \<rightharpoonup> StoredSecret"
  disk :: "string \<rightharpoonup> StoredSecret"
  tick :: nat
  sent :: "(nat \<times> tx) list"

datatype error =
  RpcError
| CommitFailed string
| RevealFailed string
| ClaimTimeoutFailed string
| NoStoredSecret nat nat
| PhaseWaitTimeout

definition await :: "agent \<Rightarrow> agent" where
  "await st = st\<lparr>tick := Suc (tick st)\<rparr>"

text \<open>\<^verbatim>\<open>saveSecrets\<close>: a failed write is reported on stderr and swallowed.\<close>

definition saveSecrets :: "env \<Rightarrow> agent \<Rightarrow> agent" where
  "saveSecrets e st = (if diskWritable e (tick st) then st\<lparr>disk := secrets st\<rparr> else st)"

definition getMatch :: "env \<Rightarrow> agent \<Rightarrow> nat \<Rightarrow> (error + match_snapshot) \<times> agent" where
  "getMatch e st mid =
    (case matchAt e (tick st) mid of
       None \<Rightarrow> (Inl RpcError, await st)
     | Some m \<Rightarrow> (Inr m, await st))"

definition getRound :: "env \<Rightarrow> agent \<Rightarrow> nat \<Rightarrow> nat \<Rightarrow> (error + round_snapshot) \<times> agent" where
  "getRound e st mid rnd =
    (case roundAt e (tick st) mid rnd of
       None \<Rightarrow> (Inl RpcError, await st)
     | Some r \<Rightarrow> (Inr r, await st))"

definition getBlock :: "env \<Rightarrow> agent \<Rightarrow> (error + nat) \<times> agent" where
  "getBlock e st =
    (case blockAt e (tick st) of
       None \<Rightarrow> (Inl RpcError, await st)
     | Some ts \<Rightarrow> (Inr ts, await st))"

text \<open>
  The pattern shared by \<^verbatim>\<open>commit\<close>, \<^verbatim>\<open>reveal\<close> and \<^verbatim>\<open>claimTimeout\<close>:
  \<^verbatim>\<open>writeContract\<close>, then \<^verbatim>\<open>waitForTransactionReceipt\<close>, then a throw unless the
  receipt's status is \<^verbatim>\<open>"success"\<close>. The error thrown on a bad status is the
  caller's and carries the transaction hash.
\<close>

definition sendTx ::
  "env \<Rightarrow> agent \<Rightarrow> tx \<Rightarrow> (string \<Rightarrow> error) \<Rightarrow> (error + string) \<times> agent" where
  "sendTx e st t failed =
    (let st1 = await (st\<lparr>sent := sent st @ [(tick st, t)]\<rparr>)
     in case txAt e (tick st) of
          Rejected \<Rightarrow> (Inl RpcError, st1)
        | Accepted h r \<Rightarrow>
            (case r of
               NoReceipt \<Rightarrow> (Inl RpcError, await st1)
             | Status ok \<Rightarrow> (if ok then (Inr h, await st1) else (Inl (failed h), await st1))))"

text \<open>
  \<^verbatim>\<open>encodePacked(["uint8", "bytes32"], [c, s])\<close>: one byte for the choice code, then
  the 32 bytes of the blinding value, most significant first.
\<close>

definition bytes32 :: "256 word \<Rightarrow> 8 word list" where
  "bytes32 w = map (\<lambda>i. ucast (drop_bit (8 * (31 - i)) w)) [0..<32]"

definition encodePacked :: "ChoiceType \<Rightarrow> 256 word \<Rightarrow> 8 word list" where
  "encodePacked c s = word_of_nat (Choice c) # bytes32 s"

definition commit :: "env \<Rightarrow> agent \<Rightarrow> nat \<Rightarrow> ChoiceType \<Rightarrow> (error + string) \<times> agent" where
  "commit e st mid c =
    (case getMatch e st mid of
       (Inl err, st1) \<Rightarrow> (Inl err, st1)
     | (Inr match, st1) \<Rightarrow>
         (let key = secretKey (chainId st1) mid (currentRound match)
          in case secrets st1 key of
               Some existing \<Rightarrow>
                 (let commitment = keccak256 e (encodePacked (choice existing) (secret existing))
                  in sendTx e st1 (CommitTx mid commitment) CommitFailed)
             | None \<Rightarrow>
                 (let s = randomBytesAt e (tick st1);
                      commitment = keccak256 e (encodePacked c s);
                      st2 = saveSecrets e
                              (st1\<lparr>secrets := (secrets st1)(key \<mapsto> \<lparr>choice = c, secret = s\<rparr>)\<rparr>)
                  in sendTx e st2 (CommitTx mid commitment) CommitFailed)))"

definition reveal :: "env \<Rightarrow> agent \<Rightarrow> nat \<Rightarrow> (error + string) \<times> agent" where
  "reveal e st mid =
    (case getMatch e st mid of
       (Inl err, st1) \<Rightarrow> (Inl err, st1)
     | (Inr match, st1) \<Rightarrow>
         (let key = secretKey (chainId st1) mid (currentRound match)
          in case secrets st1 key of
               None \<Rightarrow> (Inl (NoStoredSecret mid (currentRound match)), st1)
             | Some stored \<Rightarrow>
                 (case sendTx e st1 (RevealTx mid (choice stored) (secret stored)) RevealFailed of
                    (Inl err, st2) \<Rightarrow> (Inl err, st2)
                  | (Inr h, st2) \<Rightarrow>
                      (Inr h, saveSecrets e (st2\<lparr>secrets := (secrets st2)(key := None)\<rparr>)))))"

definition claimTimeout :: "env \<Rightarrow> agent \<Rightarrow> nat \<Rightarrow> (error + string) \<times> agent" where
  "claimTimeout e st mid = sendTx e st (ClaimTimeoutTx mid) ClaimTimeoutFailed"

section \<open>Waiting for a phase\<close>

text \<open>
  A loop body either returns from the enclosing function or falls through to the next
  iteration with the loop's variables.
\<close>

datatype ('r, 's) flow = Return 'r | Continue 's

datatype wait_result = W_ok | W_timeout_claimed | W_match_ended

text \<open>
  One pass through the body of the \<^verbatim>\<open>while\<close> loop of \<^verbatim>\<open>waitForPhase\<close>, up to the
  sleep that ends it. The \<^verbatim>\<open>try\<close> around \<^verbatim>\<open>claimTimeout\<close> catches every error of
  the claim; the progress callback is optional and not modelled.
\<close>

definition waitForPhase_poll ::
  "env \<Rightarrow> agent \<Rightarrow> nat \<Rightarrow> nat \<Rightarrow> ((error + wait_result) \<times> agent, agent) flow" where
  "waitForPhase_poll e st mid targetPhase =
    (case getMatch e st mid of
       (Inl err, st1) \<Rightarrow> Return (Inl err, st1)
     | (Inr match, st1) \<Rightarrow>
         if state match = MatchState_COMPLETE \<or> state match = MatchState_CANCELLED
         then Return (Inr W_match_ended, st1)
         else
           (case getRound e st1 mid (currentRound match) of
              (Inl err, st2) \<Rightarrow> Return (Inl err, st2)
            | (Inr rd, st2) \<Rightarrow>
                if phase rd = targetPhase then Return (Inr W_ok, st2)
                else if phaseDeadline rd > 0 then
                  (case getBlock e st2 of
                     (Inl err, st3) \<Rightarrow> Return (Inl err, st3)
                   | (Inr timestamp, st3) \<Rightarrow>
                       if timestamp > phaseDeadline rd then
                         (case claimTimeout e st3 mid of
                            (Inr h, st4) \<Rightarrow> Return (Inr W_timeout_claimed, st4)
                          | (Inl err, st4) \<Rightarrow> Continue st4)
                       else Continue st3)
                else Continue st2))"

text \<open>
  The loop runs while \<^verbatim>\<open>Date.now() - start < timeoutMs\<close>. Nothing in the code bounds
  the number of iterations (the clock is the environment's), so the model takes fuel.
  A run that has not returned when the fuel is used up yields \<open>None\<close>, together with
  the agent as the run has left it so far; a run that returns or throws yields \<open>Some\<close>.
\<close>

fun waitForPhase_loop ::
  "nat \<Rightarrow> env \<Rightarrow> agent \<Rightarrow> nat \<Rightarrow> nat \<Rightarrow> int \<Rightarrow> int \<Rightarrow> (error + wait_result) option \<times> agent" where
  "waitForPhase_loop 0 e st mid targetPhase start timeoutMs = (None, st)"
| "waitForPhase_loop (Suc fuel) e st mid targetPhase start timeoutMs =
    (if clockAt e (tick st) - start < timeoutMs then
       (case waitForPhase_poll e st mid targetPhase of
          Return (r, st') \<Rightarrow> (Some r, st')
        | Continue st' \<Rightarrow> waitForPhase_loop fuel e (await st') mid targetPhase start timeoutMs)
     else (Some (Inl PhaseWaitTimeout), st))"

definition waitForPhase ::
  "nat \<Rightarrow> env \<Rightarrow> agent \<Rightarrow> nat \<Rightarrow> nat \<Rightarrow> int \<Rightarrow> (error + wait_result) option \<times> agent" where
  "waitForPhase fuel e st mid targetPhase timeoutMs =
     waitForPhase_loop fuel e st mid targetPhase (clockAt e (tick st)) timeoutMs"

section \<open>Playing a match\<close>

text \<open>
  The entries of \<^verbatim>\<open>CHOICE_NAMES\<close> are read by index; an index past the table is
  \<^verbatim>\<open>undefined\<close> in JavaScript, \<open>None\<close> here. The field \<open>roundWinner\<close> is the
  source's \<^verbatim>\<open>RoundResult.winner\<close>.
\<close>

definition CHOICE_NAMES :: "string list" where
  "CHOICE_NAMES = [''None'', ''Rock'', ''Paper'', ''Scissors'']"

definition CHOICE_NAMES_at :: "nat \<Rightarrow> string option" where
  "CHOICE_NAMES_at i = (if i < length CHOICE_NAMES then Some (CHOICE_NAMES ! i) else None)"

record RoundResult =
  round :: nat
  myChoice :: "string option"
  opponentChoice :: "string option"
  roundWinner :: string

record score =
  player :: nat
  opponent :: nat

record MatchResult =
  matchId :: nat
  won :: bool
  score :: score
  rounds :: "RoundResult list"
  prize :: string
  opponentAddress :: string

text \<open>\<^verbatim>\<open>toLowerCase\<close> on the ASCII strings that addresses are.\<close>

definition lower_char :: "char \<Rightarrow> char" where
  "lower_char c =
     (if (65::nat) \<le> of_char c \<and> of_char c \<le> (90::nat) then char_of (of_char c + (32::nat)) else c)"

definition toLowerCase :: "string \<Rightarrow> string" where
  "toLowerCase s = map lower_char s"

text \<open>
  The round result that \<^verbatim>\<open>playMatch\<close> builds in two places, during play and when it
  rebuilds the history, from a round snapshot and the round's number.
\<close>

definition roundResultOf :: "string \<Rightarrow> bool \<Rightarrow> nat \<Rightarrow> round_snapshot \<Rightarrow> RoundResult" where
  "roundResultOf addr isPlayer1 r rd =
    (let myC = (if isPlayer1 then choiceP1 rd else choiceP2 rd);
         oppC = (if isPlayer1 then choiceP2 rd else choiceP1 rd);
         w = (if winner rd = ''0x0000000000000000000000000000000000000000'' then ''Draw''
              else if toLowerCase (winner rd) = toLowerCase addr then ''You''
              else ''Opponent'')
     in \<lparr>round = r, myChoice = CHOICE_NAMES_at myC, opponentChoice = CHOICE_NAMES_at oppC,
         roundWinner = w\<rparr>)"

text \<open>
  The \<^verbatim>\<open>for\<close> loop that rebuilds the round history: the list argument holds the round
  numbers still to read. A read that throws is skipped by the \<^verbatim>\<open>catch\<close>.
\<close>

fun fullRounds_loop ::
  "env \<Rightarrow> agent \<Rightarrow> nat \<Rightarrow> bool \<Rightarrow> nat list \<Rightarrow> RoundResult list \<Rightarrow> RoundResult list \<times> agent" where
  "fullRounds_loop e st mid isPlayer1 [] fullRounds = (fullRounds, st)"
| "fullRounds_loop e st mid isPlayer1 (r # rs) fullRounds =
    (case getRound e st mid r of
       (Inl err, st1) \<Rightarrow> fullRounds_loop e st1 mid isPlayer1 rs fullRounds
     | (Inr rd, st1) \<Rightarrow>
         if choiceP1 rd > 0 \<and> choiceP2 rd > 0
         then fullRounds_loop e st1 mid isPlayer1 rs
                (fullRounds @ [roundResultOf (address st1) isPlayer1 r rd])
         else fullRounds_loop e st1 mid isPlayer1 rs fullRounds)"

text \<open>
  The branch of \<^verbatim>\<open>playMatch\<close> for a match read as COMPLETE. \<^verbatim>\<open>Number(matchId)\<close> is
  the identifier itself for every identifier below \<open>2^53\<close>.
\<close>

definition finalizeComplete ::
  "env \<Rightarrow> agent \<Rightarrow> nat \<Rightarrow> bool \<Rightarrow> bool \<Rightarrow> match_snapshot \<Rightarrow> MatchResult \<times> agent" where
  "finalizeComplete e st mid isPlayer1 claimedTimeout match =
    (let myWins = (if isPlayer1 then winsP1 match else winsP2 match);
         oppWins = (if isPlayer1 then winsP2 match else winsP1 match);
         iWon = (claimedTimeout \<or> myWins > oppWins);
         originalPot = entryFee match * 2;
         prizeText = (if iWon then formatUsdc e ((originalPot * 98) div 100) else ''0.00'');
         opp = (if isPlayer1 then player2 match else player1 match);
         (fullRounds, st') =
            fullRounds_loop e st mid isPlayer1 [1..<Suc (currentRound match)] []
     in (\<lparr>matchId = mid, won = iWon, score = \<lparr>player = myWins, opponent = oppWins\<rparr>,
          rounds = fullRounds, prize = prizeText @ '' USDC'', opponentAddress = opp\<rparr>, st'))"

definition cancelledResult :: "nat \<Rightarrow> RoundResult list \<Rightarrow> MatchResult" where
  "cancelledResult mid roundResults =
     \<lparr>matchId = mid, won = False, score = \<lparr>player = 0, opponent = 0\<rparr>,
      rounds = roundResults, prize = ''0.00 USDC (refunded)'', opponentAddress = ''N/A''\<rparr>"

definition pickRandomChoice :: "env \<Rightarrow> agent \<Rightarrow> ChoiceType" where
  "pickRandomChoice e st = [Rock, Paper, Scissors] ! (randomIntAt e (tick st) mod 3)"

text \<open>
  The first loop of \<^verbatim>\<open>playMatch\<close>: wait, for at most 120 seconds of the local clock,
  until the match is active with a round open, or over.
\<close>

fun waitActive_loop ::
  "nat \<Rightarrow> env \<Rightarrow> agent \<Rightarrow> nat \<Rightarrow> int \<Rightarrow> (error + unit) option \<times> agent" where
  "waitActive_loop 0 e st mid waitStart = (None, st)"
| "waitActive_loop (Suc fuel) e st mid waitStart =
    (if clockAt e (tick st) - waitStart < 120000 then
       (case getMatch e st mid of
          (Inl err, st1) \<Rightarrow> (Some (Inl err), st1)
        | (Inr m, st1) \<Rightarrow>
            if state m = MatchState_ACTIVE \<and> currentRound m \<ge> 1 then (Some (Inr ()), st1)
            else if state m = MatchState_COMPLETE \<or> state m = MatchState_CANCELLED
            then (Some (Inr ()), st1)
            else waitActive_loop fuel e (await st1) mid waitStart)
     else (Some (Inr ()), st))"

text \<open>
  One pass through the body of the \<^verbatim>\<open>while (true)\<close> loop. The loop's variables are the
  agent, \<^verbatim>\<open>claimedTimeout\<close> and \<^verbatim>\<open>roundResults\<close>. \<open>wfuel\<close> is the fuel of the call
  of \<^verbatim>\<open>waitForPhase\<close> inside; when that call runs out, the pass ends with \<open>None\<close>.
\<close>

definition playMatch_pass ::
  "nat \<Rightarrow> env \<Rightarrow> agent \<Rightarrow> nat \<Rightarrow> bool \<Rightarrow> bool \<Rightarrow> RoundResult list \<Rightarrow>
     ((error + MatchResult) option \<times> agent, agent \<times> bool \<times> RoundResult list) flow" where
  "playMatch_pass wfuel e st mid isPlayer1 claimedTimeout roundResults =
    (case getMatch e st mid of
       (Inl err, st1) \<Rightarrow> Return (Some (Inl err), st1)
     | (Inr match, st1) \<Rightarrow>
         if state match = MatchState_WAITING
         then Continue (await st1, claimedTimeout, roundResults)
         else if state match = MatchState_COMPLETE
         then (case finalizeComplete e st1 mid isPlayer1 claimedTimeout match of
                 (res, st2) \<Rightarrow> Return (Some (Inr res), st2))
         else if state match = MatchState_CANCELLED
         then Return (Some (Inr (cancelledResult mid roundResults)), st1)
         else
           (case getRound e st1 mid (currentRound match) of
              (Inl err, st2) \<Rightarrow> Return (Some (Inl err), st2)
            | (Inr rd, st2) \<Rightarrow>
                if phase rd = RoundPhase_COMMIT then
                  (let myCommit = (if isPlayer1 then commitP1 rd else commitP2 rd)
                   in case (if myCommit =
                                 ''0x0000000000000000000000000000000000000000000000000000000000000000''
                            then commit e st2 mid (pickRandomChoice e st2)
                            else (Inr [], st2)) of
                        (Inl err, st3) \<Rightarrow> Return (Some (Inl err), st3)
                      | (Inr h, st3) \<Rightarrow>
                          (case waitForPhase wfuel e st3 mid RoundPhase_REVEAL 180000 of
                             (None, st4) \<Rightarrow> Return (None, st4)
                           | (Some (Inl err), st4) \<Rightarrow> Return (Some (Inl err), st4)
                           | (Some (Inr result), st4) \<Rightarrow>
                               if result = W_timeout_claimed
                               then Continue (st4, True, roundResults)
                               else Continue (st4, claimedTimeout, roundResults)))
                else if phase rd = RoundPhase_REVEAL then
                  (let myC = (if isPlayer1 then choiceP1 rd else choiceP2 rd)
                   in case (if myC = Choice None_choice then reveal e st2 mid
                            else (Inr [], st2)) of
                        (Inl err, st3) \<Rightarrow> Return (Some (Inl err), st3)
                      | (Inr h, st3) \<Rightarrow>
                          (case getRound e (await st3) mid (currentRound match) of
                             (Inl err, st4) \<Rightarrow> Continue (st4, claimedTimeout, roundResults)
                           | (Inr completedRound, st4) \<Rightarrow>
                               if phase completedRound = RoundPhase_COMPLETE
                               then Continue (st4, claimedTimeout,
                                      roundResults @
                                        [roundResultOf (address st4) isPlayer1 (currentRound match)
                                           completedRound])
                               else Continue (st4, claimedTimeout, roundResults)))
                else Continue (await st2, claimedTimeout, roundResults)))"

fun playMatch_loop ::
  "nat \<Rightarrow> nat \<Rightarrow> env \<Rightarrow> agent \<Rightarrow> nat \<Rightarrow> bool \<Rightarrow> bool \<Rightarrow> RoundResult list \<Rightarrow>
     (error + MatchResult) option \<times> agent" where
  "playMatch_loop 0 wfuel e st mid isPlayer1 claimedTimeout roundResults = (None, st)"
| "playMatch_loop (Suc fuel) wfuel e st mid isPlayer1 claimedTimeout roundResults =
    (case playMatch_pass wfuel e st mid isPlayer1 claimedTimeout roundResults of
       Return r \<Rightarrow> r
     | Continue (st', claimedTimeout', roundResults') \<Rightarrow>
         playMatch_loop fuel wfuel e st' mid isPlayer1 claimedTimeout' roundResults')"

definition playMatch ::
  "nat \<Rightarrow> nat \<Rightarrow> env \<Rightarrow> agent \<Rightarrow> nat \<Rightarrow> bool \<Rightarrow> (error + MatchResult) option \<times> agent" where
  "playMatch fuel wfuel e st mid isPlayer1 =
    (case waitActive_loop fuel e st mid (clockAt e (tick st)) of
       (None, st1) \<Rightarrow> (None, st1)
     | (Some (Inl err), st1) \<Rightarrow> (Some (Inl err), st1)
     | (Some (Inr u), st1) \<Rightarrow> playMatch_loop fuel wfuel e st1 mid isPlayer1 False [])"

section \<open>The wait loops of the tool that plays one round\<close>

text \<open>
  The tool that plays one round with a move given by the caller has its own two wait
  loops, one after the commit and one after the reveal. Each sleeps, reads the round
  again, leaves when the phase has moved on, and otherwise claims a timeout when the
  local clock, in whole seconds, is more than 5 past the deadline and the opponent's
  action is missing. A claim that throws ends the tool call. After a claim the tool
  sleeps, reads the match and returns; \<open>TimeoutWin\<close> carries that snapshot. The last
  argument is the end of the loop's budget on the local clock, which the tool sets 90
  seconds after the moment the loop is entered.
\<close>

datatype round_wait = PhaseLeft | TimeoutWin match_snapshot | BudgetSpent

fun playRound_commitWait ::
  "nat \<Rightarrow> env \<Rightarrow> agent \<Rightarrow> nat \<Rightarrow> nat \<Rightarrow> bool \<Rightarrow> int \<Rightarrow> (error + round_wait) option \<times> agent" where
  "playRound_commitWait 0 e st mid roundNum isPlayer1 commitWait = (None, st)"
| "playRound_commitWait (Suc fuel) e st mid roundNum isPlayer1 commitWait =
    (if clockAt e (tick st) < commitWait then
       (case getRound e (await st) mid roundNum of
          (Inl err, st1) \<Rightarrow> (Some (Inl err), st1)
        | (Inr rd, st1) \<Rightarrow>
            if phase rd \<noteq> RoundPhase_COMMIT then (Some (Inr PhaseLeft), st1)
            else if phaseDeadline rd > 0 \<and>
                    clockAt e (tick st1) div 1000 > int (phaseDeadline rd) + 5
                    \<and> (if isPlayer1 then commitP2 rd else commitP1 rd) =
                        ''0x0000000000000000000000000000000000000000000000000000000000000000''
            then (case claimTimeout e st1 mid of
                    (Inl err, st2) \<Rightarrow> (Some (Inl err), st2)
                  | (Inr h, st2) \<Rightarrow>
                      (case getMatch e (await st2) mid of
                         (Inl err, st3) \<Rightarrow> (Some (Inl err), st3)
                       | (Inr finalMatch, st3) \<Rightarrow> (Some (Inr (TimeoutWin finalMatch)), st3)))
            else playRound_commitWait fuel e st1 mid roundNum isPlayer1 commitWait)
     else (Some (Inr BudgetSpent), st))"

fun playRound_revealWait ::
  "nat \<Rightarrow> env \<Rightarrow> agent \<Rightarrow> nat \<Rightarrow> nat \<Rightarrow> bool \<Rightarrow> int \<Rightarrow> (error + round_wait) option \<times> agent" where
  "playRound_revealWait 0 e st mid roundNum isPlayer1 revealWait = (None, st)"
| "playRound_revealWait (Suc fuel) e st mid roundNum isPlayer1 revealWait =
    (if clockAt e (tick st) < revealWait then
       (case getRound e (await st) mid roundNum of
          (Inl err, st1) \<Rightarrow> (Some (Inl err), st1)
        | (Inr rd, st1) \<Rightarrow>
            if phase rd = RoundPhase_COMPLETE then (Some (Inr PhaseLeft), st1)
            else if phaseDeadline rd > 0 \<and>
                    clockAt e (tick st1) div 1000 > int (phaseDeadline rd) + 5
                    \<and> (if isPlayer1 then choiceP2 rd else choiceP1 rd) = Choice None_choice
            then (case claimTimeout e st1 mid of
                    (Inl err, st2) \<Rightarrow> (Some (Inl err), st2)
                  | (Inr h, st2) \<Rightarrow>
                      (case getMatch e (await st2) mid of
                         (Inl err, st3) \<Rightarrow> (Some (Inl err), st3)
                       | (Inr finalMatch, st3) \<Rightarrow> (Some (Inr (TimeoutWin finalMatch)), st3)))
            else playRound_revealWait fuel e st1 mid roundNum isPlayer1 revealWait)
     else (Some (Inr BudgetSpent), st))"

section \<open>Vocabulary of the properties\<close>

text \<open>
  The last resort of the outcome resolver: the comparison of the two win counts.
\<close>

definition fallbackWinner :: "match_snapshot \<Rightarrow> string option" where
  "fallbackWinner m =
     (if winsP1 m > winsP2 m then Some (player1 m)
      else if winsP2 m > winsP1 m then Some (player2 m)
      else None)"

text \<open>
  What \<^verbatim>\<open>waitForPhase\<close> has read in the pass that starts at time \<open>t\<close> when it submits
  a timeout claim: a match that is not over, a round that is not in the target phase
  and has a deadline, and a block whose timestamp is past that deadline.
\<close>

definition claim_due :: "env \<Rightarrow> nat \<Rightarrow> nat \<Rightarrow> nat \<Rightarrow> bool" where
  "claim_due e mid targetPhase t =
    (case matchAt e t mid of
       None \<Rightarrow> False
     | Some m \<Rightarrow>
         state m \<noteq> MatchState_COMPLETE \<and> state m \<noteq> MatchState_CANCELLED \<and>
         (case roundAt e (t + 1) mid (currentRound m) of
            None \<Rightarrow> False
          | Some rd \<Rightarrow>
              phase rd \<noteq> targetPhase \<and> phaseDeadline rd > 0 \<and>
              (case blockAt e (t + 2) of
                 None \<Rightarrow> False
               | Some ts \<Rightarrow> ts > phaseDeadline rd)))"

text \<open>
  The condition the specification words for a timeout claim, with the grace margin
  as a parameter: the current time, in seconds, is past the deadline by more than the
  margin, and the opponent's action of the phase is still missing.
\<close>

definition spec_timeout_due :: "nat \<Rightarrow> bool \<Rightarrow> int \<Rightarrow> round_snapshot \<Rightarrow> bool" where
  "spec_timeout_due grace isPlayer1 now rd =
    (now > int (phaseDeadline rd) + int grace \<and>
     (if phase rd = RoundPhase_COMMIT
      then (if isPlayer1 then commitP2 rd else commitP1 rd) = ZERO_BYTES32
      else if phase rd = RoundPhase_REVEAL
      then (if isPlayer1 then choiceP2 rd else choiceP1 rd) = 0
      else False))"

text \<open>A round read shows both choices revealed; a read that failed shows nothing.\<close>

definition bothRevealed :: "round_snapshot option \<Rightarrow> bool" where
  "bothRevealed x = (case x of None \<Rightarrow> False | Some rd \<Rightarrow> choiceP1 rd > 0 \<and> choiceP2 rd > 0)"

text \<open>
  Among the submitted transactions \<open>txs\<close> there is a timeout claim for the match whose
  receipt reported success.
\<close>

definition claim_confirmed :: "env \<Rightarrow> nat \<Rightarrow> (nat \<times> tx) list \<Rightarrow> bool" where
  "claim_confirmed e mid txs =
     list_ex (\<lambda>(t, x). x = ClaimTimeoutTx mid \<and>
                (case txAt e t of Accepted h (Status ok) \<Rightarrow> ok | _ \<Rightarrow> False)) txs"

section \<open>Sample inputs\<close>

definition demo_match :: "nat \<Rightarrow> nat \<Rightarrow> nat \<Rightarrow> nat \<Rightarrow> match_snapshot" where
  "demo_match s w1 w2 n =
     \<lparr>player1 = ''0xaa'', player2 = ''0xbb'', entryFee = 1000000, pot = 2000000, state = s,
      winsP1 = w1, winsP2 = w2, currentRound = n, createdAt = 0, startedAt = 0\<rparr>"

definition demo_round :: "string \<Rightarrow> string \<Rightarrow> nat \<Rightarrow> nat \<Rightarrow> nat \<Rightarrow> nat \<Rightarrow> round_snapshot" where
  "demo_round c1 c2 ch1 ch2 ph dl =
     \<lparr>commitP1 = c1, commitP2 = c2, choiceP1 = ch1, choiceP2 = ch2, phase = ph,
      phaseDeadline = dl, winner = ZERO_ADDRESS\<rparr>"

text \<open>
  What \<^verbatim>\<open>formatUsdc\<close> prints for an amount of whole cents: the units, a point and
  two decimals.
\<close>

definition demo_formatUsdc :: "nat \<Rightarrow> string" where
  "demo_formatUsdc n =
     show_nat (n div 1000000) @ ''.'' @ show_nat (n div 100000 mod 10) @ show_nat (n div 10000 mod 10)"

text \<open>
  A ledger that answers every read with the same match, reads round \<open>r\<close> as \<open>rds r\<close>,
  reports block time \<open>ts\<close> and gives every transaction a receipt with status \<open>ok\<close>.
\<close>

definition demo_env :: "match_snapshot \<Rightarrow> (nat \<Rightarrow> round_snapshot option) \<Rightarrow> nat \<Rightarrow> bool \<Rightarrow> env" where
  "demo_env m rds ts ok =
     \<lparr>matchAt = (\<lambda>t mid. Some m), roundAt = (\<lambda>t mid r. rds r), blockAt = (\<lambda>t. Some ts),
      txAt = (\<lambda>t. Accepted ''0xfeed'' (Status ok)), clockAt = (\<lambda>t. int ts * 1000),
      randomBytesAt = (\<lambda>t. 42), randomIntAt = (\<lambda>t. 0), diskWritable = (\<lambda>t. True),
      keccak256 = (\<lambda>bs. word_of_nat (length bs)),
      formatUsdc = demo_formatUsdc\<rparr>"

definition demo_agent :: "(string \<rightharpoonup> StoredSecret) \<Rightarrow> agent" where
  "demo_agent s =
     \<lparr>chainId = 8453, address = ''0xaa'', secrets = s, disk = s, tick = 0, sent = []\<rparr>"

text \<open>
  The agent with nothing stored; a ledger on which round 1 of an active match stays in
  the commit phase with commitments \<open>c1\<close> and \<open>c2\<close> and deadline \<open>dl\<close> while
  the block time is \<open>ts\<close>; and a ledger on which the match is cancelled.
\<close>

definition demo_fresh :: agent where
  "demo_fresh = demo_agent Map.empty"

definition demo_wait_env :: "string \<Rightarrow> string \<Rightarrow> nat \<Rightarrow> nat \<Rightarrow> env" where
  "demo_wait_env c1 c2 dl ts =
     demo_env (demo_match MatchState_ACTIVE 0 0 1)
       (\<lambda>r. Some (demo_round c1 c2 0 0 RoundPhase_COMMIT dl)) ts True"

definition demo_cancelled_env :: env where
  "demo_cancelled_env = demo_env (demo_match MatchState_CANCELLED 0 0 0) (\<lambda>r. None) 50 True"

text \<open>
  A forfeit seen from player 2: round 1 stays in the commit phase with only player 2
  committed and its deadline passed, and the ledger reports the match as COMPLETE at
  0 to 0 from time 8 on, after the timeout claim has been confirmed.
\<close>

definition demo_forfeit_env :: env where
  "demo_forfeit_env =
     \<lparr>matchAt = (\<lambda>t mid. Some (demo_match (if t < 8 then MatchState_ACTIVE
                                             else MatchState_COMPLETE) 0 0 1)),
      roundAt = (\<lambda>t mid r. Some (demo_round ZERO_BYTES32 ''0x07'' 0 0 RoundPhase_COMMIT 100)),
      blockAt = (\<lambda>t. Some 101),
      txAt = (\<lambda>t. Accepted ''0xfeed'' (Status True)), clockAt = (\<lambda>t. 101000),
      randomBytesAt = (\<lambda>t. 42), randomIntAt = (\<lambda>t. 0), diskWritable = (\<lambda>t. True),
      keccak256 = (\<lambda>bs. word_of_nat (length bs)),
      formatUsdc = demo_formatUsdc\<rparr>"

definition demo_player2 :: agent where
  "demo_player2 =
     \<lparr>chainId = 8453, address = ''0xbb'', secrets = Map.empty, disk = Map.empty, tick = 0,
      sent = []\<rparr>"

section \<open>Outcome resolver: properties\<close>

text \<open>
  C10. For a match whose state is not COMPLETE (WAITING, ACTIVE, CANCELLED or any other
  state code), the outcome resolver returns no winner, whatever the win counts and
  the fragments of the last round are.
\<close>

theorem determineMatchWinner_unfinished:
  "state m \<noteq> MatchState_COMPLETE \<Longrightarrow> determineMatchWinner m lr = None"
  by (simp add: determineMatchWinner_def)

theorem determineMatchWinner_unfinished_witness:
  "determineMatchWinner (demo_match MatchState_CANCELLED 3 0 1)
     (Some (demo_round ''0x01'' ZERO_BYTES32 0 0 0 100)) = None
   \<and> determineMatchWinner (demo_match MatchState_ACTIVE 2 1 4) (None :: round_snapshot option) = None
   \<and> determineMatchWinner (demo_match MatchState_WAITING 0 0 0) (None :: round_snapshot option) = None"
  using determineMatchWinner_unfinished
          [of "demo_match MatchState_CANCELLED 3 0 1"
              "Some (demo_round ''0x01'' ZERO_BYTES32 0 0 0 100)"]
        determineMatchWinner_unfinished
          [of "demo_match MatchState_ACTIVE 2 1 4" "None :: round_snapshot option"]
        determineMatchWinner_unfinished
          [of "demo_match MatchState_WAITING 0 0 0" "None :: round_snapshot option"]
  by (simp add: demo_match_def MatchState_WAITING_def MatchState_ACTIVE_def
        MatchState_COMPLETE_def MatchState_CANCELLED_def)

text \<open>
  C3. For a COMPLETE match the outcome resolver decides in this order. The threshold is
  3. A side whose win count reached the threshold wins, player 1 first. Otherwise, with
  the last round's fragments at hand: if exactly one side committed, that side wins;
  if both committed and exactly one revealed, the revealer wins. In every other case
  (no fragments, nobody committed, or both committed and both or neither revealed)
  the side with the strictly higher win count wins, and equal counts give no winner.
\<close>

theorem determineMatchWinner_decision_order:
  assumes "state m = MatchState_COMPLETE"
  shows "WINS_REQUIRED = 3
    \<and> (WINS_REQUIRED \<le> winsP1 m \<longrightarrow> determineMatchWinner m lr = Some (player1 m))
    \<and> (winsP1 m < WINS_REQUIRED \<and> WINS_REQUIRED \<le> winsP2 m \<longrightarrow>
          determineMatchWinner m lr = Some (player2 m))
    \<and> (winsP1 m < WINS_REQUIRED \<and> winsP2 m < WINS_REQUIRED \<longrightarrow>
         (case lr of
            None \<Rightarrow> determineMatchWinner m lr = fallbackWinner m
          | Some r \<Rightarrow>
              (commitP1 r \<noteq> ZERO_BYTES32 \<and> commitP2 r = ZERO_BYTES32 \<longrightarrow>
                 determineMatchWinner m lr = Some (player1 m))
            \<and> (commitP1 r = ZERO_BYTES32 \<and> commitP2 r \<noteq> ZERO_BYTES32 \<longrightarrow>
                 determineMatchWinner m lr = Some (player2 m))
            \<and> (commitP1 r \<noteq> ZERO_BYTES32 \<and> commitP2 r \<noteq> ZERO_BYTES32 \<and>
                 choiceP1 r > 0 \<and> choiceP2 r = 0 \<longrightarrow>
                 determineMatchWinner m lr = Some (player1 m))
            \<and> (commitP1 r \<noteq> ZERO_BYTES32 \<and> commitP2 r \<noteq> ZERO_BYTES32 \<and>
                 choiceP1 r = 0 \<and> choiceP2 r > 0 \<longrightarrow>
                 determineMatchWinner m lr = Some (player2 m))
            \<and> (commitP1 r \<noteq> ZERO_BYTES32 \<and> commitP2 r \<noteq> ZERO_BYTES32 \<and>
                 (choiceP1 r > 0 \<longleftrightarrow> choiceP2 r > 0) \<longrightarrow>
                 determineMatchWinner m lr = fallbackWinner m)
            \<and> (commitP1 r = ZERO_BYTES32 \<and> commitP2 r = ZERO_BYTES32 \<longrightarrow>
                 determineMatchWinner m lr = fallbackWinner m)))
    \<and> (winsP1 m > winsP2 m \<longrightarrow> fallbackWinner m = Some (player1 m))
    \<and> (winsP2 m > winsP1 m \<longrightarrow> fallbackWinner m = Some (player2 m))
    \<and> (winsP1 m = winsP2 m \<longrightarrow> fallbackWinner m = None)"
  using assms
  by (auto simp: determineMatchWinner_def fallbackWinner_def WINS_REQUIRED_def Let_def
      split: option.splits)

theorem determineMatchWinner_decision_order_witness:
  "determineMatchWinner (demo_match MatchState_COMPLETE 3 2 5) (None :: round_snapshot option)
     = Some ''0xaa''
   \<and> determineMatchWinner (demo_match MatchState_COMPLETE 1 3 4) (None :: round_snapshot option)
     = Some ''0xbb''
   \<and> determineMatchWinner (demo_match MatchState_COMPLETE 0 0 1)
       (Some (demo_round ZERO_BYTES32 ''0x01'' 0 0 0 100)) = Some ''0xbb''
   \<and> determineMatchWinner (demo_match MatchState_COMPLETE 1 1 3)
       (Some (demo_round ''0x01'' ''0x02'' 2 0 1 100)) = Some ''0xaa''
   \<and> determineMatchWinner (demo_match MatchState_COMPLETE 2 1 4)
       (Some (demo_round ''0x01'' ''0x02'' 0 0 1 100)) = Some ''0xaa''
   \<and> determineMatchWinner (demo_match MatchState_COMPLETE 1 1 3) (None :: round_snapshot option)
     = None"
proof -
  have threshold_p1:
    "determineMatchWinner (demo_match MatchState_COMPLETE 3 2 5) (None :: round_snapshot option)
       = Some ''0xaa''"
    using determineMatchWinner_decision_order
            [of "demo_match MatchState_COMPLETE 3 2 5" "None :: round_snapshot option"]
    by (simp add: demo_match_def WINS_REQUIRED_def)
  have threshold_p2:
    "determineMatchWinner (demo_match MatchState_COMPLETE 1 3 4) (None :: round_snapshot option)
       = Some ''0xbb''"
    using determineMatchWinner_decision_order
            [of "demo_match MatchState_COMPLETE 1 3 4" "None :: round_snapshot option"]
    by (simp add: demo_match_def WINS_REQUIRED_def)
  have commit_forfeit:
    "determineMatchWinner (demo_match MatchState_COMPLETE 0 0 1)
       (Some (demo_round ZERO_BYTES32 ''0x01'' 0 0 0 100)) = Some ''0xbb''"
    using determineMatchWinner_decision_order
            [of "demo_match MatchState_COMPLETE 0 0 1"
                "Some (demo_round ZERO_BYTES32 ''0x01'' 0 0 0 100)"]
    by (simp add: demo_match_def demo_round_def ZERO_BYTES32_def WINS_REQUIRED_def)
  have reveal_forfeit:
    "determineMatchWinner (demo_match MatchState_COMPLETE 1 1 3)
       (Some (demo_round ''0x01'' ''0x02'' 2 0 1 100)) = Some ''0xaa''"
    using determineMatchWinner_decision_order
            [of "demo_match MatchState_COMPLETE 1 1 3"
                "Some (demo_round ''0x01'' ''0x02'' 2 0 1 100)"]
    by (simp add: demo_match_def demo_round_def ZERO_BYTES32_def WINS_REQUIRED_def)
  have higher_count:
    "determineMatchWinner (demo_match MatchState_COMPLETE 2 1 4)
       (Some (demo_round ''0x01'' ''0x02'' 0 0 1 100)) = Some ''0xaa''"
    using determineMatchWinner_decision_order
            [of "demo_match MatchState_COMPLETE 2 1 4"
                "Some (demo_round ''0x01'' ''0x02'' 0 0 1 100)"]
    by (simp add: demo_match_def demo_round_def ZERO_BYTES32_def WINS_REQUIRED_def)
  have undetermined:
    "determineMatchWinner (demo_match MatchState_COMPLETE 1 1 3) (None :: round_snapshot option)
       = None"
    using determineMatchWinner_decision_order
            [of "demo_match MatchState_COMPLETE 1 1 3" "None :: round_snapshot option"]
    by (simp add: demo_match_def WINS_REQUIRED_def)
  show ?thesis
    using threshold_p1 threshold_p2 commit_forfeit reveal_forfeit higher_count undetermined
    by (simp only: simp_thms)
qed

section \<open>Secret store: properties\<close>

lemma await_simps [simp]:
  "secrets (await st) = secrets st" "disk (await st) = disk st" "sent (await st) = sent st"
  "chainId (await st) = chainId st" "address (await st) = address st"
  "tick (await st) = Suc (tick st)"
  by (simp_all add: await_def)

lemma saveSecrets_simps [simp]:
  "secrets (saveSecrets e st) = secrets st" "sent (saveSecrets e st) = sent st"
  "chainId (saveSecrets e st) = chainId st" "address (saveSecrets e st) = address st"
  "tick (saveSecrets e st) = tick st"
  by (simp_all add: saveSecrets_def)

lemma sendTx_secrets [simp]: "secrets (snd (sendTx e st t f)) = secrets st"
  by (simp add: sendTx_def await_def Let_def split: submission.splits receipt.splits)

lemma sendTx_disk [simp]: "disk (snd (sendTx e st t f)) = disk st"
  by (simp add: sendTx_def await_def Let_def split: submission.splits receipt.splits)

lemma sendTx_sent [simp]: "sent (snd (sendTx e st t f)) = sent st @ [(tick st, t)]"
  by (simp add: sendTx_def await_def Let_def split: submission.splits receipt.splits)

lemma sendTx_chainId [simp]: "chainId (snd (sendTx e st t f)) = chainId st"
  by (simp add: sendTx_def await_def Let_def split: submission.splits receipt.splits)

lemma sendTx_Inr:
  "fst (sendTx e st t f) = Inr h \<longleftrightarrow> txAt e (tick st) = Accepted h (Status True)"
  by (auto simp: sendTx_def await_def Let_def split: submission.splits receipt.splits)

lemma getMatch_Some:
  "matchAt e (tick st) mid = Some m \<Longrightarrow> getMatch e st mid = (Inr m, await st)"
  by (simp add: getMatch_def)

lemma getMatch_None:
  "matchAt e (tick st) mid = None \<Longrightarrow> getMatch e st mid = (Inl RpcError, await st)"
  by (simp add: getMatch_def)

lemma length_bytes32: "length (bytes32 w) = 32"
  by (simp add: bytes32_def)

lemma reveal_unfold:
  assumes "matchAt e (tick st) mid = Some m"
    and "secrets st (secretKey (chainId st) mid (currentRound m)) = Some stored"
  shows "reveal e st mid =
    (case sendTx e (await st) (RevealTx mid (choice stored) (secret stored)) RevealFailed of
       (Inl err, st2) \<Rightarrow> (Inl err, st2)
     | (Inr h, st2) \<Rightarrow>
         (Inr h, saveSecrets e
            (st2\<lparr>secrets := (secrets st2)(secretKey (chainId st) mid (currentRound m) := None)\<rparr>)))"
  using assms by (simp add: reveal_def getMatch_Some)

text \<open>
  The key is a faithful name of the triple: decimal numerals contain no dash, so two
  keys are equal only if chain id, match id and round number are.
\<close>

lemma digit_char_inj:
  assumes "a < 10" and "b < 10" and "digit_char a = digit_char b"
  shows "a = b"
proof -
  have d: "distinct ''0123456789''" by simp
  have "a < length ''0123456789''" "b < length ''0123456789''" using assms by simp_all
  with d assms(3) show ?thesis
    unfolding digit_char_def by (simp only: nth_eq_iff_index_eq)
qed

lemma digit_char_not_dash: "d < 10 \<Longrightarrow> digit_char d \<noteq> CHR ''-''"
proof -
  assume "d < 10"
  then have "digit_char d \<in> set ''0123456789''"
    unfolding digit_char_def by (intro nth_mem) simp
  then show ?thesis by auto
qed

lemma show_nat_nonempty: "show_nat n \<noteq> []"
  by (subst show_nat.simps) simp

lemma show_nat_no_dash: "CHR ''-'' \<notin> set (show_nat n)"
proof (induction n rule: show_nat.induct)
  case (1 n)
  show ?case
  proof (cases "n < 10")
    case True
    then show ?thesis using digit_char_not_dash [of n] by (subst show_nat.simps) auto
  next
    case False
    then show ?thesis using 1 digit_char_not_dash [of "n mod 10"]
      by (subst show_nat.simps) auto
  qed
qed

lemma show_nat_inj: "show_nat a = show_nat b \<Longrightarrow> a = b"
proof (induction a arbitrary: b rule: show_nat.induct)
  case (1 a)
  show ?case
  proof (cases "a < 10")
    case a: True
    show ?thesis
    proof (cases "b < 10")
      case True
      then show ?thesis using a "1.prems" digit_char_inj [of a b]
        by (simp add: show_nat.simps [of a] show_nat.simps [of b])
    next
      case False
      then show ?thesis using a "1.prems" show_nat_nonempty [of "b div 10"]
        by (simp add: show_nat.simps [of a] show_nat.simps [of b])
    qed
  next
    case a: False
    show ?thesis
    proof (cases "b < 10")
      case True
      then show ?thesis using a "1.prems" show_nat_nonempty [of "a div 10"]
        by (simp add: show_nat.simps [of a] show_nat.simps [of b])
    next
      case False
      then have "show_nat (a div 10) = show_nat (b div 10)"
        and "digit_char (a mod 10) = digit_char (b mod 10)"
        using a "1.prems" by (simp_all add: show_nat.simps [of a] show_nat.simps [of b])
      then have "a div 10 = b div 10" and "a mod 10 = b mod 10"
        using "1.IH" [OF a] digit_char_inj [of "a mod 10" "b mod 10"] by simp_all
      then show ?thesis by (metis div_mult_mod_eq)
    qed
  qed
qed

lemma split_at_separator:
  assumes "xs @ c # ys = xs' @ c # ys'" and "c \<notin> set xs" and "c \<notin> set xs'"
  shows "xs = xs' \<and> ys = ys'"
  using assms
proof (induction xs arbitrary: xs')
  case Nil
  then show ?case by (cases xs') auto
next
  case (Cons x xs)
  then show ?case by (cases xs') auto
qed

lemma secretKey_inj:
  assumes "secretKey c m r = secretKey c' m' r'"
  shows "c = c' \<and> m = m' \<and> r = r'"
proof -
  from assms have
    "show_nat c @ CHR ''-'' # (show_nat m @ CHR ''-'' # show_nat r)
       = show_nat c' @ CHR ''-'' # (show_nat m' @ CHR ''-'' # show_nat r')"
    by (simp add: secretKey_def)
  from split_at_separator [OF this show_nat_no_dash show_nat_no_dash]
  have 1: "show_nat c = show_nat c'"
    and 2: "show_nat m @ CHR ''-'' # show_nat r = show_nat m' @ CHR ''-'' # show_nat r'"
    by simp_all
  from split_at_separator [OF 2 show_nat_no_dash show_nat_no_dash]
  have "show_nat m = show_nat m'" "show_nat r = show_nat r'" by simp_all
  with 1 show ?thesis by (simp add: show_nat_inj)
qed

text \<open>The key of chain 8453, match 7, round 1, and the sample agent and ledger.\<close>

lemma demo_key [simp]:
  "secretKey 8453 7 1 = ''8453-7-1''" "secretKey 8453 7 (Suc 0) = ''8453-7-1''"
  by (simp_all add: secretKey_def show_nat.simps digit_char_def)

lemma demo_env_simps [simp]:
  "matchAt (demo_env m rds ts ok) t mid = Some m"
  "roundAt (demo_env m rds ts ok) t mid r = rds r"
  "blockAt (demo_env m rds ts ok) t = Some ts"
  "txAt (demo_env m rds ts ok) t = Accepted ''0xfeed'' (Status ok)"
  "clockAt (demo_env m rds ts ok) t = int ts * 1000"
  "randomBytesAt (demo_env m rds ts ok) t = 42"
  "randomIntAt (demo_env m rds ts ok) t = 0"
  "diskWritable (demo_env m rds ts ok) t = True"
  by (simp_all add: demo_env_def)

lemma demo_agent_simps [simp]:
  "chainId (demo_agent s) = 8453" "address (demo_agent s) = ''0xaa''"
  "secrets (demo_agent s) = s" "disk (demo_agent s) = s"
  "tick (demo_agent s) = 0" "sent (demo_agent s) = []"
  by (simp_all add: demo_agent_def)

lemma demo_match_simps [simp]:
  "player1 (demo_match s w1 w2 n) = ''0xaa''" "player2 (demo_match s w1 w2 n) = ''0xbb''"
  "entryFee (demo_match s w1 w2 n) = 1000000"
  "state (demo_match s w1 w2 n) = s" "winsP1 (demo_match s w1 w2 n) = w1"
  "winsP2 (demo_match s w1 w2 n) = w2" "currentRound (demo_match s w1 w2 n) = n"
  by (simp_all add: demo_match_def)

text \<open>
  C4. Once a secret is stored under a key, \<^verbatim>\<open>commit\<close> never replaces it: whatever the
  ledger answers and whatever choice is passed, the key still maps to the same secret
  after the call. When the call is for that very key (chain id, match id and the round
  the ledger reports), the store and the file are left as they were and the commitment
  submitted is the hash of the stored choice and blinding value; the choice passed to
  the call and a fresh random value play no part.
\<close>

theorem commit_keeps_stored_secret:
  assumes "secrets st k = Some s"
  shows "secrets (snd (commit e st mid c)) k = Some s
     \<and> (\<forall>m. matchAt e (tick st) mid = Some m \<and> k = secretKey (chainId st) mid (currentRound m) \<longrightarrow>
           secrets (snd (commit e st mid c)) = secrets st
         \<and> disk (snd (commit e st mid c)) = disk st
         \<and> sent (snd (commit e st mid c)) =
             sent st @ [(Suc (tick st), CommitTx mid (keccak256 e (encodePacked (choice s) (secret s))))])"
proof (cases "matchAt e (tick st) mid")
  case None
  then show ?thesis using assms by (simp add: commit_def getMatch_None)
next
  case (Some m)
  show ?thesis
  proof (cases "secrets st (secretKey (chainId st) mid (currentRound m))")
    case None
    then have "k \<noteq> secretKey (chainId st) mid (currentRound m)" using assms by auto
    then show ?thesis using assms Some None
      by (simp add: commit_def getMatch_Some Let_def)
  next
    case (Some s')
    then show ?thesis using assms \<open>matchAt e (tick st) mid = Some m\<close>
      by (auto simp: commit_def getMatch_Some Let_def)
  qed
qed

theorem commit_keeps_stored_secret_witness:
  "secrets (snd (commit (demo_env (demo_match MatchState_ACTIVE 0 0 1) (\<lambda>r. None) 50 True)
                   (demo_agent [''8453-7-1'' \<mapsto> \<lparr>choice = Rock, secret = 5\<rparr>]) 7 Paper))
     ''8453-7-1'' = Some \<lparr>choice = Rock, secret = 5\<rparr>
   \<and> sent (snd (commit (demo_env (demo_match MatchState_ACTIVE 0 0 1) (\<lambda>r. None) 50 True)
                   (demo_agent [''8453-7-1'' \<mapsto> \<lparr>choice = Rock, secret = 5\<rparr>]) 7 Paper))
     = [(1, CommitTx 7 (keccak256 (demo_env (demo_match MatchState_ACTIVE 0 0 1) (\<lambda>r. None) 50 True)
                          (encodePacked Rock 5)))]"
  using commit_keeps_stored_secret
          [of "demo_agent [''8453-7-1'' \<mapsto> \<lparr>choice = Rock, secret = 5\<rparr>]" "''8453-7-1''"
              "\<lparr>choice = Rock, secret = 5\<rparr>"
              "demo_env (demo_match MatchState_ACTIVE 0 0 1) (\<lambda>r. None) 50 True" 7 Paper]
  by simp

text \<open>
  C5. When the ledger reports the match and no secret is stored under the key of
  (chain id, match id, current round), \<^verbatim>\<open>reveal\<close> fails with the error "no stored
  secret" for that match and round, and it has called \<^verbatim>\<open>writeContract\<close> not once: the
  list of submitted transactions, the store and the file are as before. The only
  network traffic before the failure is the read of the match that yields the round.
\<close>

theorem reveal_without_secret:
  assumes "matchAt e (tick st) mid = Some m"
    and "secrets st (secretKey (chainId st) mid (currentRound m)) = None"
  shows "fst (reveal e st mid) = Inl (NoStoredSecret mid (currentRound m))
       \<and> sent (snd (reveal e st mid)) = sent st
       \<and> secrets (snd (reveal e st mid)) = secrets st
       \<and> disk (snd (reveal e st mid)) = disk st"
  using assms by (simp add: reveal_def getMatch_Some)

theorem reveal_without_secret_witness:
  "fst (reveal (demo_env (demo_match MatchState_ACTIVE 0 0 1) (\<lambda>r. None) 50 True)
          (demo_agent Map.empty) 7) = Inl (NoStoredSecret 7 1)
   \<and> sent (snd (reveal (demo_env (demo_match MatchState_ACTIVE 0 0 1) (\<lambda>r. None) 50 True)
          (demo_agent Map.empty) 7)) = []"
  using reveal_without_secret
          [of "demo_env (demo_match MatchState_ACTIVE 0 0 1) (\<lambda>r. None) 50 True"
              "demo_agent Map.empty" 7 "demo_match MatchState_ACTIVE 0 0 1"]
  by simp

text \<open>
  C6. \<^verbatim>\<open>reveal\<close> deletes the stored secret on its success path and nowhere else. If the
  call ends in an error (the match cannot be read, no secret is stored, the submission
  throws, no receipt arrives, or the receipt reports a status other than success) the
  store and the file are exactly as before. If it returns a transaction hash, then a
  secret was stored for the current round, the reveal transaction carrying that choice
  and blinding value was submitted, its receipt reported success, and the store is the
  old one without that key.
\<close>

theorem reveal_deletes_on_success_only:
  assumes "reveal e st mid = (res, st')"
  shows "(\<forall>err. res = Inl err \<longrightarrow> secrets st' = secrets st \<and> disk st' = disk st)
       \<and> (\<forall>h. res = Inr h \<longrightarrow>
            (\<exists>m stored. matchAt e (tick st) mid = Some m
               \<and> secrets st (secretKey (chainId st) mid (currentRound m)) = Some stored
               \<and> sent st' = sent st @ [(Suc (tick st), RevealTx mid (choice stored) (secret stored))]
               \<and> txAt e (Suc (tick st)) = Accepted h (Status True)
               \<and> secrets st' = (secrets st)(secretKey (chainId st) mid (currentRound m) := None)))"
proof (cases "matchAt e (tick st) mid")
  case None
  then have "res = Inl RpcError" "st' = await st"
    using assms by (simp_all add: reveal_def getMatch_None)
  then show ?thesis by simp
next
  case (Some m)
  let ?key = "secretKey (chainId st) mid (currentRound m)"
  show ?thesis
  proof (cases "secrets st ?key")
    case None
    then have "res = Inl (NoStoredSecret mid (currentRound m))" "st' = await st"
      using assms Some by (simp_all add: reveal_def getMatch_Some)
    then show ?thesis by simp
  next
    case stored: (Some stored)
    let ?t = "RevealTx mid (choice stored) (secret stored)"
    obtain r st2 where tx: "sendTx e (await st) ?t RevealFailed = (r, st2)"
      by (cases "sendTx e (await st) ?t RevealFailed")
    have st2: "secrets st2 = secrets st" "disk st2 = disk st"
      "sent st2 = sent st @ [(Suc (tick st), ?t)]"
      using sendTx_secrets [of e "await st" ?t RevealFailed]
        sendTx_disk [of e "await st" ?t RevealFailed]
        sendTx_sent [of e "await st" ?t RevealFailed]
      unfolding tx by simp_all
    show ?thesis
    proof (cases r)
      case (Inl err)
      then have "res = Inl err" "st' = st2"
        using assms reveal_unfold [OF Some stored] tx by simp_all
      then show ?thesis using st2 by simp
    next
      case (Inr h)
      then have res: "res = Inr h"
        and st': "st' = saveSecrets e (st2\<lparr>secrets := (secrets st2)(?key := None)\<rparr>)"
        using assms reveal_unfold [OF Some stored] tx by simp_all
      have "txAt e (Suc (tick st)) = Accepted h (Status True)"
        using sendTx_Inr [of e "await st" ?t RevealFailed h] tx Inr by simp
      then show ?thesis
        using res st' st2 Some stored by simp
    qed
  qed
qed

text \<open>
  Two runs on the sample ledger with Rock and blinding value 5 stored for round 1 of
  match 7: the receipt reports failure and the secret stays; the receipt reports
  success and the secret is gone.
\<close>

lemma demo_reveal_reverted:
  "fst (reveal (demo_env (demo_match MatchState_ACTIVE 0 0 1) (\<lambda>r. None) 50 False)
          (demo_agent [''8453-7-1'' \<mapsto> \<lparr>choice = Rock, secret = 5\<rparr>]) 7)
     = Inl (RevealFailed ''0xfeed'')"
  by (simp add: reveal_def getMatch_def sendTx_def Let_def)

lemma demo_reveal_success:
  "fst (reveal (demo_env (demo_match MatchState_ACTIVE 0 0 1) (\<lambda>r. None) 50 True)
          (demo_agent [''8453-7-1'' \<mapsto> \<lparr>choice = Rock, secret = 5\<rparr>]) 7)
     = Inr ''0xfeed''"
  by (simp add: reveal_def getMatch_def sendTx_def Let_def)

theorem reveal_deletes_on_success_only_witness:
  "secrets (snd (reveal (demo_env (demo_match MatchState_ACTIVE 0 0 1) (\<lambda>r. None) 50 False)
                   (demo_agent [''8453-7-1'' \<mapsto> \<lparr>choice = Rock, secret = 5\<rparr>]) 7))
     = [''8453-7-1'' \<mapsto> \<lparr>choice = Rock, secret = 5\<rparr>]
   \<and> secrets (snd (reveal (demo_env (demo_match MatchState_ACTIVE 0 0 1) (\<lambda>r. None) 50 True)
                   (demo_agent [''8453-7-1'' \<mapsto> \<lparr>choice = Rock, secret = 5\<rparr>]) 7))
     = Map.empty"
proof -
  let ?st = "demo_agent [''8453-7-1'' \<mapsto> \<lparr>choice = Rock, secret = 5\<rparr>]"
  let ?bad = "demo_env (demo_match MatchState_ACTIVE 0 0 1) (\<lambda>r. None) 50 False"
  let ?good = "demo_env (demo_match MatchState_ACTIVE 0 0 1) (\<lambda>r. None) 50 True"
  have kept: "secrets (snd (reveal ?bad ?st 7)) = [''8453-7-1'' \<mapsto> \<lparr>choice = Rock, secret = 5\<rparr>]"
    using reveal_deletes_on_success_only
            [of ?bad ?st 7 "fst (reveal ?bad ?st 7)" "snd (reveal ?bad ?st 7)"]
          demo_reveal_reverted
    by simp
  have gone: "secrets (snd (reveal ?good ?st 7)) = Map.empty"
    using reveal_deletes_on_success_only
            [of ?good ?st 7 "fst (reveal ?good ?st 7)" "snd (reveal ?good ?st 7)"]
          demo_reveal_success
    by simp
  show ?thesis using kept gone by (simp only: simp_thms)
qed

text \<open>
  The packing loses nothing: byte \<open>i\<close> of the 32 holds bits \<open>8 * (31 - i)\<close> to
  \<open>8 * (31 - i) + 7\<close> of the blinding value, so equal packings come from equal
  choices and equal blinding values.
\<close>

lemma bit_bytes32:
  assumes "i < 32" and "k < 8"
  shows "bit (bytes32 w ! i) k = bit w (8 * (31 - i) + k)"
  using assms by (simp add: bytes32_def bit_ucast_iff bit_drop_bit_eq)

lemma bytes32_inj:
  assumes "bytes32 w = bytes32 w'"
  shows "w = w'"
proof (rule bit_word_eqI)
  fix n assume "n < LENGTH(256)"
  then have n: "n < 256" by simp
  let ?i = "31 - n div 8"
  have i: "?i < 32" and k: "n mod 8 < 8" by simp_all
  have pos: "8 * (31 - ?i) + n mod 8 = n" using n by simp
  have "bit w n = bit (bytes32 w ! ?i) (n mod 8)"
    using bit_bytes32 [OF i k, of w] pos by simp
  also have "\<dots> = bit (bytes32 w' ! ?i) (n mod 8)" using assms by simp
  also have "\<dots> = bit w' n"
    using bit_bytes32 [OF i k, of w'] pos by simp
  finally show "bit w n = bit w' n" .
qed

lemma Choice_inj: "word_of_nat (Choice c) = (word_of_nat (Choice c') :: 8 word) \<Longrightarrow> c = c'"
  by (cases c; cases c') simp_all

lemma encodePacked_inj:
  "encodePacked c s = encodePacked c' s' \<Longrightarrow> c = c' \<and> s = s'"
  by (auto simp: encodePacked_def dest: bytes32_inj Choice_inj)

text \<open>
  C8. Whenever \<^verbatim>\<open>commit\<close> has read the match, the commitment it submits is
  \<^verbatim>\<open>keccak256\<close> applied to 33 bytes: the byte of a choice code (1 for Rock, 2 for
  Paper, 3 for Scissors) followed by the 32 bytes of a blinding value, most significant
  byte first; and that choice and blinding value are the pair stored under the round's
  key after the call. With no secret stored before, they are the choice passed and the
  32 random bytes just drawn; with one stored, they are the stored ones.
  \<^verbatim>\<open>keccak256\<close> itself is the library's function, a parameter here.
\<close>

theorem commit_hash_preimage:
  assumes "matchAt e (tick st) mid = Some m"
  shows "\<exists>c' s'.
           secrets (snd (commit e st mid c)) (secretKey (chainId st) mid (currentRound m)) =
             Some \<lparr>choice = c', secret = s'\<rparr>
         \<and> sent (snd (commit e st mid c)) =
             sent st @ [(Suc (tick st), CommitTx mid (keccak256 e (word_of_nat (Choice c') # bytes32 s')))]
         \<and> length (word_of_nat (Choice c') # bytes32 s') = 33
         \<and> (\<forall>i<32. bytes32 s' ! i = ucast (drop_bit (8 * (31 - i)) s'))
         \<and> (secrets st (secretKey (chainId st) mid (currentRound m)) = None \<longrightarrow>
               c' = c \<and> s' = randomBytesAt e (Suc (tick st)))
         \<and> (\<forall>x. secrets st (secretKey (chainId st) mid (currentRound m)) = Some x \<longrightarrow>
               c' = choice x \<and> s' = secret x)
         \<and> Choice Rock = 1 \<and> Choice Paper = 2 \<and> Choice Scissors = 3"
proof (cases "secrets st (secretKey (chainId st) mid (currentRound m))")
  case None
  have b: "\<forall>i<32. bytes32 (randomBytesAt e (Suc (tick st))) ! i
             = ucast (drop_bit (8 * (31 - i)) (randomBytesAt e (Suc (tick st))))"
    by (simp add: bytes32_def)
  show ?thesis
    apply (rule exI [of _ c])
    apply (rule exI [of _ "randomBytesAt e (Suc (tick st))"])
    using assms None b
    by (simp add: commit_def getMatch_Some Let_def encodePacked_def length_bytes32)
next
  case (Some x)
  have b: "\<forall>i<32. bytes32 (secret x) ! i = ucast (drop_bit (8 * (31 - i)) (secret x))"
    by (simp add: bytes32_def)
  have x: "x = \<lparr>choice = choice x, secret = secret x\<rparr>" by simp
  show ?thesis
    apply (rule exI [of _ "choice x"])
    apply (rule exI [of _ "secret x"])
    using assms Some b x
    by (simp add: commit_def getMatch_Some Let_def encodePacked_def length_bytes32)
qed

theorem commit_hash_preimage_witness:
  "sent (snd (commit (demo_env (demo_match MatchState_ACTIVE 0 0 1) (\<lambda>r. None) 50 True)
                (demo_agent Map.empty) 7 Scissors))
     = [(1, CommitTx 7 (keccak256 (demo_env (demo_match MatchState_ACTIVE 0 0 1) (\<lambda>r. None) 50 True)
                          (3 # bytes32 42)))]
   \<and> secrets (snd (commit (demo_env (demo_match MatchState_ACTIVE 0 0 1) (\<lambda>r. None) 50 True)
                (demo_agent Map.empty) 7 Scissors)) ''8453-7-1''
     = Some \<lparr>choice = Scissors, secret = 42\<rparr>"
  using commit_hash_preimage
          [of "demo_env (demo_match MatchState_ACTIVE 0 0 1) (\<lambda>r. None) 50 True"
              "demo_agent Map.empty" 7 "demo_match MatchState_ACTIVE 0 0 1" Scissors]
  by auto

text \<open>
  Neither \<^verbatim>\<open>commit\<close> nor \<^verbatim>\<open>reveal\<close> submits a timeout claim; what they submit is
  appended to the list of submitted transactions.
\<close>

lemma claim_confirmed_simps [simp]:
  "claim_confirmed e mid [] = False"
  "claim_confirmed e mid (a @ b) = (claim_confirmed e mid a \<or> claim_confirmed e mid b)"
  "claim_confirmed e mid [(t, CommitTx n c)] = False"
  "claim_confirmed e mid [(t, RevealTx n ch s)] = False"
  "claim_confirmed e mid [(t, ClaimTimeoutTx mid)] = (\<exists>h. txAt e t = Accepted h (Status True))"
  by (auto simp: claim_confirmed_def split: submission.splits receipt.splits)

lemma commit_sent:
  "commit e st mid c = (r, st') \<Longrightarrow>
     \<exists>txs. sent st' = sent st @ txs \<and> \<not> claim_confirmed e mid' txs"
  by (auto simp: commit_def getMatch_def sendTx_def Let_def saveSecrets_def await_def
      split: option.splits submission.splits receipt.splits if_splits)

lemma reveal_sent:
  "reveal e st mid = (r, st') \<Longrightarrow>
     \<exists>txs. sent st' = sent st @ txs \<and> \<not> claim_confirmed e mid' txs"
  by (auto simp: reveal_def getMatch_def sendTx_def Let_def saveSecrets_def await_def
      split: option.splits submission.splits receipt.splits if_splits)

section \<open>Waiting for a phase: properties\<close>

lemma waitForPhase_poll_Return:
  assumes "waitForPhase_poll e st mid tp = Return (r, st')"
  shows "tick st \<le> tick st' \<and>
     (sent st' = sent st \<and> r \<noteq> Inr W_timeout_claimed \<or>
      sent st' = sent st @ [(tick st + 3, ClaimTimeoutTx mid)] \<and> claim_due e mid tp (tick st)
        \<and> r = Inr W_timeout_claimed)"
  using assms
  by (auto simp: waitForPhase_poll_def getMatch_def getRound_def getBlock_def claimTimeout_def
        sendTx_def await_def Let_def claim_due_def
      split: option.splits submission.splits receipt.splits if_splits)

lemma waitForPhase_poll_Continue:
  assumes "waitForPhase_poll e st mid tp = Continue st'"
  shows "tick st \<le> tick st' \<and>
     (sent st' = sent st \<or>
      sent st' = sent st @ [(tick st + 3, ClaimTimeoutTx mid)] \<and> claim_due e mid tp (tick st))"
  using assms
  by (auto simp: waitForPhase_poll_def getMatch_def getRound_def getBlock_def claimTimeout_def
        sendTx_def await_def Let_def claim_due_def
      split: option.splits submission.splits receipt.splits if_splits)

lemma waitForPhase_loop_claims:
  "waitForPhase_loop fuel e st mid tp start tmo = (res, st') \<Longrightarrow>
     tick st \<le> tick st' \<and>
     (\<exists>ts. sent st' = sent st @ map (\<lambda>t. (t + 3, ClaimTimeoutTx mid)) ts
         \<and> (\<forall>t\<in>set ts. tick st \<le> t \<and> claim_due e mid tp t)
         \<and> (res = Some (Inr W_timeout_claimed) \<longrightarrow> ts \<noteq> []))"
proof (induction fuel arbitrary: st)
  case 0
  then show ?case by (simp add: exI [of _ "[]"])
next
  case (Suc fuel)
  show ?case
  proof (cases "clockAt e (tick st) - start < tmo")
    case False
    with Suc.prems have "res = Some (Inl PhaseWaitTimeout)" "st' = st" by simp_all
    then show ?thesis by (simp add: exI [of _ "[]"])
  next
    case True
    show ?thesis
    proof (cases "waitForPhase_poll e st mid tp")
      case (Return x)
      obtain r where x: "x = (r, st')" and res: "res = Some r"
        using Return True Suc.prems by (cases x) simp
      from waitForPhase_poll_Return [OF Return [unfolded x]]
      have t: "tick st \<le> tick st'"
        and d: "sent st' = sent st \<and> r \<noteq> Inr W_timeout_claimed \<or>
           sent st' = sent st @ [(tick st + 3, ClaimTimeoutTx mid)] \<and> claim_due e mid tp (tick st)
            \<and> r = Inr W_timeout_claimed"
        by simp_all
      from d show ?thesis
      proof
        assume "sent st' = sent st \<and> r \<noteq> Inr W_timeout_claimed"
        then show ?thesis using t res by (simp add: exI [of _ "[]"])
      next
        assume a: "sent st' = sent st @ [(tick st + 3, ClaimTimeoutTx mid)]
           \<and> claim_due e mid tp (tick st) \<and> r = Inr W_timeout_claimed"
        then show ?thesis using t res by (simp add: exI [of _ "[tick st]"])
      qed
    next
      case (Continue st1)
      with True Suc.prems
      have run: "waitForPhase_loop fuel e (await st1) mid tp start tmo = (res, st')" by simp
      from Suc.IH [OF run] obtain ts where
        t': "tick (await st1) \<le> tick st'"
        and s': "sent st' = sent (await st1) @ map (\<lambda>t. (t + 3, ClaimTimeoutTx mid)) ts"
        and j': "\<forall>t\<in>set ts. tick (await st1) \<le> t \<and> claim_due e mid tp t"
        and r': "res = Some (Inr W_timeout_claimed) \<longrightarrow> ts \<noteq> []"
        by blast
      from waitForPhase_poll_Continue [OF Continue]
      have t1: "tick st \<le> tick st1"
        and d: "sent st1 = sent st \<or>
           sent st1 = sent st @ [(tick st + 3, ClaimTimeoutTx mid)] \<and> claim_due e mid tp (tick st)"
        by simp_all
      have le: "tick st \<le> tick st'" using t1 t' by simp
      have j: "\<forall>t\<in>set ts. tick st \<le> t \<and> claim_due e mid tp t"
        using j' t1 by auto
      from d show ?thesis
      proof
        assume "sent st1 = sent st"
        then have "sent st' = sent st @ map (\<lambda>t. (t + 3, ClaimTimeoutTx mid)) ts"
          using s' by simp
        then show ?thesis using le j r' by blast
      next
        assume a: "sent st1 = sent st @ [(tick st + 3, ClaimTimeoutTx mid)]
           \<and> claim_due e mid tp (tick st)"
        then have "sent st' = sent st @ map (\<lambda>t. (t + 3, ClaimTimeoutTx mid)) (tick st # ts)"
          using s' by simp
        moreover have "\<forall>t\<in>set (tick st # ts). tick st \<le> t \<and> claim_due e mid tp t"
          using j a by simp
        moreover have "res = Some (Inr W_timeout_claimed) \<longrightarrow> tick st # ts \<noteq> []" by simp
        ultimately show ?thesis using le by blast
      qed
    qed
  qed
qed

lemma waitForPhase_poll_Return_confirmed:
  assumes "waitForPhase_poll e st mid tp = Return (r, st')"
  shows "\<exists>txs. sent st' = sent st @ txs \<and> (claim_confirmed e mid txs \<longleftrightarrow> r = Inr W_timeout_claimed)"
  using assms
  by (auto simp: waitForPhase_poll_def getMatch_def getRound_def getBlock_def claimTimeout_def
        sendTx_def await_def Let_def
      split: option.splits submission.splits receipt.splits if_splits)

lemma waitForPhase_poll_Continue_confirmed:
  assumes "waitForPhase_poll e st mid tp = Continue st'"
  shows "\<exists>txs. sent st' = sent st @ txs \<and> \<not> claim_confirmed e mid txs"
  using assms
  by (auto simp: waitForPhase_poll_def getMatch_def getRound_def getBlock_def claimTimeout_def
        sendTx_def await_def Let_def
      split: option.splits submission.splits receipt.splits if_splits)

lemma waitForPhase_loop_confirmed:
  "waitForPhase_loop fuel e st mid tp start tmo = (res, st') \<Longrightarrow>
     \<exists>txs. sent st' = sent st @ txs \<and>
        (claim_confirmed e mid txs \<longleftrightarrow> res = Some (Inr W_timeout_claimed))"
proof (induction fuel arbitrary: st)
  case 0
  then show ?case by auto
next
  case (Suc fuel)
  show ?case
  proof (cases "clockAt e (tick st) - start < tmo")
    case False
    with Suc.prems show ?thesis by auto
  next
    case True
    show ?thesis
    proof (cases "waitForPhase_poll e st mid tp")
      case (Return x)
      obtain r where x: "x = (r, st')" and res: "res = Some r"
        using Return True Suc.prems by (cases x) simp
      from waitForPhase_poll_Return_confirmed [OF Return [unfolded x]] res show ?thesis by auto
    next
      case (Continue st1)
      with True Suc.prems
      have run: "waitForPhase_loop fuel e (await st1) mid tp start tmo = (res, st')" by simp
      from Suc.IH [OF run] obtain txs2 where
        2: "sent st' = sent (await st1) @ txs2"
           "claim_confirmed e mid txs2 \<longleftrightarrow> res = Some (Inr W_timeout_claimed)"
        by blast
      from waitForPhase_poll_Continue_confirmed [OF Continue] obtain txs1 where
        1: "sent st1 = sent st @ txs1" "\<not> claim_confirmed e mid txs1"
        by blast
      have "sent st' = sent st @ (txs1 @ txs2)" using 1 2 by simp
      moreover have "claim_confirmed e mid (txs1 @ txs2) \<longleftrightarrow> res = Some (Inr W_timeout_claimed)"
        using 1 2 by simp
      ultimately show ?thesis by blast
    qed
  qed
qed

text \<open>
  The wall-clock budget bounds the wait: if from some time \<open>T\<close> on the local clock is
  at least \<open>timeoutMs\<close> past the start, then the loop has returned or thrown before
  it has made more than \<open>T\<close> passes, whatever the ledger answers.
\<close>

lemma waitForPhase_loop_returns:
  assumes "\<forall>t\<ge>T. tmo \<le> clockAt e t - start"
  shows "T \<le> tick st + fuel \<Longrightarrow> fst (waitForPhase_loop (Suc fuel) e st mid tp start tmo) \<noteq> None"
proof (induction fuel arbitrary: st)
  case 0
  then have "\<not> clockAt e (tick st) - start < tmo" using assms by (simp add: not_less)
  then show ?case by simp
next
  case (Suc fuel)
  show ?case
  proof (cases "clockAt e (tick st) - start < tmo")
    case False
    then show ?thesis by simp
  next
    case True
    show ?thesis
    proof (cases "waitForPhase_poll e st mid tp")
      case (Return x)
      then show ?thesis using True by (cases x) simp
    next
      case (Continue st1)
      have "tick st \<le> tick st1"
        using waitForPhase_poll_Continue [OF Continue] by simp
      then have "T \<le> tick (await st1) + fuel" using Suc.prems by simp
      from Suc.IH [OF this] show ?thesis using True Continue by simp
    qed
  qed
qed


text \<open>
  C2, as the code has it. At every point of every run of \<^verbatim>\<open>waitForPhase\<close>, returned
  or still waiting, the transactions it has submitted are timeout claims for the match,
  and each was submitted at the end of a pass of the wait loop in which the match read
  was neither COMPLETE nor CANCELLED, the round read was not in the target phase and
  carried a deadline greater than zero, and the timestamp of the latest block was
  strictly greater than that deadline. The comparison has no grace margin and is made
  on the ledger's block time; the commitments and revealed choices of the round are
  not looked at. A result \<^verbatim>\<open>timeout_claimed\<close> means such a claim was submitted.
\<close>

theorem waitForPhase_claims_past_deadline:
  assumes "waitForPhase fuel e st mid targetPhase timeoutMs = (res, st')"
  shows "\<exists>ts. sent st' = sent st @ map (\<lambda>t. (t + 3, ClaimTimeoutTx mid)) ts
            \<and> (\<forall>t\<in>set ts. tick st \<le> t \<and> claim_due e mid targetPhase t)
            \<and> (res = Some (Inr W_timeout_claimed) \<longrightarrow> ts \<noteq> [])"
  using waitForPhase_loop_claims [OF assms [unfolded waitForPhase_def]] by blast

lemma demo_round_simps [simp]:
  "commitP1 (demo_round c1 c2 ch1 ch2 ph dl) = c1" "commitP2 (demo_round c1 c2 ch1 ch2 ph dl) = c2"
  "choiceP1 (demo_round c1 c2 ch1 ch2 ph dl) = ch1" "choiceP2 (demo_round c1 c2 ch1 ch2 ph dl) = ch2"
  "phase (demo_round c1 c2 ch1 ch2 ph dl) = ph" "phaseDeadline (demo_round c1 c2 ch1 ch2 ph dl) = dl"
  "winner (demo_round c1 c2 ch1 ch2 ph dl) = ZERO_ADDRESS"
  by (simp_all add: demo_round_def)

text \<open>
  A wait for the reveal phase on the sample ledger: the round stays in the commit phase
  with deadline \<open>dl\<close>, the block time is \<open>ts\<close>, and the claim is accepted.
\<close>

lemma demo_wait_claims:
  assumes "dl > 0" and "ts > dl"
  shows "waitForPhase 1 (demo_wait_env c1 c2 dl ts) demo_fresh 7 RoundPhase_REVEAL 180000
         = (Some (Inr W_timeout_claimed), demo_fresh\<lparr>tick := 5, sent := [(3, ClaimTimeoutTx 7)]\<rparr>)"
  using assms
  by (simp add: waitForPhase_def waitForPhase_poll_def getMatch_def getRound_def getBlock_def
        claimTimeout_def sendTx_def Let_def await_def demo_agent_def demo_fresh_def
        demo_wait_env_def MatchState_ACTIVE_def MatchState_COMPLETE_def MatchState_CANCELLED_def
        RoundPhase_COMMIT_def RoundPhase_REVEAL_def)

theorem waitForPhase_claims_past_deadline_witness:
  "waitForPhase 1 (demo_wait_env ''0x01'' ZERO_BYTES32 100 106) demo_fresh 7 RoundPhase_REVEAL 180000
     = (Some (Inr W_timeout_claimed), demo_fresh\<lparr>tick := 5, sent := [(3, ClaimTimeoutTx 7)]\<rparr>)
   \<and> claim_due (demo_wait_env ''0x01'' ZERO_BYTES32 100 106) 7 RoundPhase_REVEAL 0"
proof -
  let ?e = "demo_wait_env ''0x01'' ZERO_BYTES32 100 106"
  let ?st' = "demo_fresh\<lparr>tick := 5, sent := [(3, ClaimTimeoutTx 7)]\<rparr>"
  have run: "waitForPhase 1 ?e demo_fresh 7 RoundPhase_REVEAL 180000
               = (Some (Inr W_timeout_claimed), ?st')"
    by (rule demo_wait_claims) simp_all
  from waitForPhase_claims_past_deadline [OF run]
  obtain ts where s: "sent ?st' = sent demo_fresh @ map (\<lambda>t. (t + 3, ClaimTimeoutTx 7)) ts"
    and j: "\<forall>t\<in>set ts. tick demo_fresh \<le> t \<and> claim_due ?e 7 RoundPhase_REVEAL t"
    by blast
  from s have "ts = [0]"
    by (cases ts) (auto simp: demo_agent_def demo_fresh_def)
  with j have "claim_due ?e 7 RoundPhase_REVEAL 0" by simp
  with run show ?thesis by simp
qed

text \<open>
  Two runs that the wording of C2 excludes. In the first the block time is one second
  past the deadline, inside any grace margin of a second or more, and the claim is
  submitted. In the second the deadline is long past but the opponent of player 1 has
  committed, and the claim is submitted all the same.
\<close>

theorem waitForPhase_grace_counterexample:
  "waitForPhase 1 (demo_wait_env ''0x01'' ZERO_BYTES32 100 101) demo_fresh 7 RoundPhase_REVEAL 180000
     = (Some (Inr W_timeout_claimed), demo_fresh\<lparr>tick := 5, sent := [(3, ClaimTimeoutTx 7)]\<rparr>)
   \<and> \<not> spec_timeout_due 1 True 101 (demo_round ''0x01'' ZERO_BYTES32 0 0 RoundPhase_COMMIT 100)
   \<and> waitForPhase 1 (demo_wait_env ZERO_BYTES32 ''0x02'' 100 200) demo_fresh 7 RoundPhase_REVEAL 180000
     = (Some (Inr W_timeout_claimed), demo_fresh\<lparr>tick := 5, sent := [(3, ClaimTimeoutTx 7)]\<rparr>)
   \<and> \<not> spec_timeout_due 5 True 200 (demo_round ZERO_BYTES32 ''0x02'' 0 0 RoundPhase_COMMIT 100)"
proof -
  have early:
    "waitForPhase 1 (demo_wait_env ''0x01'' ZERO_BYTES32 100 101) demo_fresh 7 RoundPhase_REVEAL 180000
     = (Some (Inr W_timeout_claimed), demo_fresh\<lparr>tick := 5, sent := [(3, ClaimTimeoutTx 7)]\<rparr>)"
    by (rule demo_wait_claims) simp_all
  have within_grace:
    "\<not> spec_timeout_due 1 True 101 (demo_round ''0x01'' ZERO_BYTES32 0 0 RoundPhase_COMMIT 100)"
    by (simp add: spec_timeout_due_def)
  have no_check:
    "waitForPhase 1 (demo_wait_env ZERO_BYTES32 ''0x02'' 100 200) demo_fresh 7 RoundPhase_REVEAL 180000
     = (Some (Inr W_timeout_claimed), demo_fresh\<lparr>tick := 5, sent := [(3, ClaimTimeoutTx 7)]\<rparr>)"
    by (rule demo_wait_claims) simp_all
  have opponent_committed:
    "\<not> spec_timeout_due 5 True 200 (demo_round ZERO_BYTES32 ''0x02'' 0 0 RoundPhase_COMMIT 100)"
    by (simp add: spec_timeout_due_def ZERO_BYTES32_def RoundPhase_COMMIT_def)
  show ?thesis
    using early within_grace no_check opponent_committed by (intro conjI)
qed

text \<open>
  A grace margin and a look at the opponent's action are what the wait loops of the
  \<^verbatim>\<open>play_round\<close> tool have: a loop submits at most one transaction, a timeout claim, and only
  after reading a round that is still in the commit phase (for the second loop: not
  yet complete), has a deadline, has the opponent's commitment (revealed choice)
  missing, at a moment when the local clock is more than 5 seconds past the deadline.
\<close>

lemma playRound_commitWait_claims:
  "playRound_commitWait fuel e st mid rn p commitWait = (res, st') \<Longrightarrow>
     sent st' = sent st \<or>
     (\<exists>t rd. sent st' = sent st @ [(Suc t, ClaimTimeoutTx mid)] \<and>
        roundAt e t mid rn = Some rd \<and> phase rd = RoundPhase_COMMIT \<and> phaseDeadline rd > 0 \<and>
        spec_timeout_due 5 p (clockAt e (Suc t) div 1000) rd)"
proof (induction fuel arbitrary: st)
  case 0
  then show ?case by simp
next
  case (Suc fuel)
  show ?case
  proof (cases "clockAt e (tick st) < commitWait")
    case False
    then show ?thesis using Suc.prems by auto
  next
    case True
    show ?thesis
    proof (cases "roundAt e (Suc (tick st)) mid rn")
      case None
      then show ?thesis using Suc.prems True by (auto simp: getRound_def)
    next
      case (Some rd)
      let ?st1 = "await (await st)"
      let ?due = "phaseDeadline rd > 0 \<and>
                    clockAt e (tick ?st1) div 1000 > int (phaseDeadline rd) + 5
                    \<and> (if p then commitP2 rd else commitP1 rd) =
                        ''0x0000000000000000000000000000000000000000000000000000000000000000''"
      show ?thesis
      proof (cases "phase rd \<noteq> RoundPhase_COMMIT")
        case True
        then show ?thesis using Suc.prems \<open>clockAt e (tick st) < commitWait\<close> Some
          by (auto simp: getRound_def)
      next
        case commit: False
        show ?thesis
        proof (cases ?due)
          case False
          then have "playRound_commitWait fuel e ?st1 mid rn p commitWait = (res, st')"
            using Suc.prems \<open>clockAt e (tick st) < commitWait\<close> Some commit
            by (auto simp: getRound_def split: if_splits)
          from Suc.IH [OF this] show ?thesis by simp
        next
          case True
          then have due: "spec_timeout_due 5 p (clockAt e (Suc (Suc (tick st))) div 1000) rd"
            using commit by (simp add: spec_timeout_due_def ZERO_BYTES32_def)
          have "sent st' = sent st @ [(Suc (Suc (tick st)), ClaimTimeoutTx mid)]"
            using Suc.prems \<open>clockAt e (tick st) < commitWait\<close> Some commit True
            by (auto simp: getRound_def getMatch_def claimTimeout_def sendTx_def Let_def
                split: if_splits option.splits submission.splits receipt.splits)
          then show ?thesis using Some commit True due by auto
        qed
      qed
    qed
  qed
qed

lemma playRound_revealWait_claims:
  "playRound_revealWait fuel e st mid rn p revealWait = (res, st') \<Longrightarrow>
     sent st' = sent st \<or>
     (\<exists>t rd. sent st' = sent st @ [(Suc t, ClaimTimeoutTx mid)] \<and>
        roundAt e t mid rn = Some rd \<and> phase rd \<noteq> RoundPhase_COMPLETE \<and> phaseDeadline rd > 0 \<and>
        clockAt e (Suc t) div 1000 > int (phaseDeadline rd) + 5 \<and>
        (if p then choiceP2 rd else choiceP1 rd) = 0 \<and>
        (phase rd = RoundPhase_REVEAL \<longrightarrow>
           spec_timeout_due 5 p (clockAt e (Suc t) div 1000) rd))"
proof (induction fuel arbitrary: st)
  case 0
  then show ?case by simp
next
  case (Suc fuel)
  show ?case
  proof (cases "clockAt e (tick st) < revealWait")
    case False
    then show ?thesis using Suc.prems by auto
  next
    case True
    show ?thesis
    proof (cases "roundAt e (Suc (tick st)) mid rn")
      case None
      then show ?thesis using Suc.prems True by (auto simp: getRound_def)
    next
      case (Some rd)
      let ?st1 = "await (await st)"
      let ?due = "phaseDeadline rd > 0 \<and>
                    clockAt e (tick ?st1) div 1000 > int (phaseDeadline rd) + 5
                    \<and> (if p then choiceP2 rd else choiceP1 rd) = Choice None_choice"
      show ?thesis
      proof (cases "phase rd = RoundPhase_COMPLETE")
        case True
        then show ?thesis using Suc.prems \<open>clockAt e (tick st) < revealWait\<close> Some
          by (auto simp: getRound_def)
      next
        case running: False
        show ?thesis
        proof (cases ?due)
          case False
          then have "playRound_revealWait fuel e ?st1 mid rn p revealWait = (res, st')"
            using Suc.prems \<open>clockAt e (tick st) < revealWait\<close> Some running
            by (auto simp: getRound_def split: if_splits)
          from Suc.IH [OF this] show ?thesis by simp
        next
          case True
          then have due: "phase rd = RoundPhase_REVEAL \<longrightarrow>
              spec_timeout_due 5 p (clockAt e (Suc (Suc (tick st))) div 1000) rd"
            by (simp add: spec_timeout_due_def RoundPhase_COMMIT_def RoundPhase_REVEAL_def)
          have "sent st' = sent st @ [(Suc (Suc (tick st)), ClaimTimeoutTx mid)]"
            using Suc.prems \<open>clockAt e (tick st) < revealWait\<close> Some running True
            by (auto simp: getRound_def getMatch_def claimTimeout_def sendTx_def Let_def
                split: if_splits option.splits submission.splits receipt.splits)
          then show ?thesis using Some running True due by auto
        qed
      qed
    qed
  qed
qed

section \<open>Playing a match: properties\<close>

lemma bothRevealed_simps [simp]:
  "bothRevealed None = False"
  "bothRevealed (Some rd) = (0 < choiceP1 rd \<and> 0 < choiceP2 rd)"
  by (simp_all add: bothRevealed_def)

lemma fullRounds_loop_upt:
  "fullRounds_loop e st mid p [a..<a + n] acc =
     (acc @ map (\<lambda>r. roundResultOf (address st) p r (the (roundAt e (tick st + (r - a)) mid r)))
              (filter (\<lambda>r. bothRevealed (roundAt e (tick st + (r - a)) mid r)) [a..<a + n]),
      st\<lparr>tick := tick st + n\<rparr>)"
proof (induction n arbitrary: a st acc)
  case 0
  then show ?case by simp
next
  case (Suc n)
  have upt: "[a..<a + Suc n] = a # [Suc a..<Suc a + n]"
    by (simp add: upt_conv_Cons)
  have shift: "Suc (tick st) + (r - Suc a) = tick st + (r - a)"
    if "r \<in> set [Suc a..<Suc a + n]" for r
    using that by auto
  have f: "filter (\<lambda>r. bothRevealed (roundAt e (Suc (tick st) + (r - Suc a)) mid r)) [Suc a..<Suc a + n]
         = filter (\<lambda>r. bothRevealed (roundAt e (tick st + (r - a)) mid r)) [Suc a..<Suc a + n]"
  proof (rule filter_cong [OF refl])
    fix r assume "r \<in> set [Suc a..<Suc a + n]"
    from shift [OF this]
    show "bothRevealed (roundAt e (Suc (tick st) + (r - Suc a)) mid r)
        = bothRevealed (roundAt e (tick st + (r - a)) mid r)"
      by (simp only:)
  qed
  have m: "map (\<lambda>r. roundResultOf (address st) p r (the (roundAt e (Suc (tick st) + (r - Suc a)) mid r)))
             (filter (\<lambda>r. bothRevealed (roundAt e (tick st + (r - a)) mid r)) [Suc a..<Suc a + n])
         = map (\<lambda>r. roundResultOf (address st) p r (the (roundAt e (tick st + (r - a)) mid r)))
             (filter (\<lambda>r. bothRevealed (roundAt e (tick st + (r - a)) mid r)) [Suc a..<Suc a + n])"
  proof (rule map_cong [OF refl])
    fix r
    assume "r \<in> set (filter (\<lambda>r. bothRevealed (roundAt e (tick st + (r - a)) mid r))
                        [Suc a..<Suc a + n])"
    then have "r \<in> set [Suc a..<Suc a + n]" by simp
    from shift [OF this]
    show "roundResultOf (address st) p r (the (roundAt e (Suc (tick st) + (r - Suc a)) mid r))
        = roundResultOf (address st) p r (the (roundAt e (tick st + (r - a)) mid r))"
      by (simp only:)
  qed
  have st: "(await st)\<lparr>tick := tick (await st) + n\<rparr> = st\<lparr>tick := tick st + Suc n\<rparr>"
    by (simp add: await_def)
  have ih: "fullRounds_loop e (await st) mid p [Suc a..<Suc (a + n)] acc' =
     (acc' @ map (\<lambda>r. roundResultOf (address st) p r (the (roundAt e (tick st + (r - a)) mid r)))
              (filter (\<lambda>r. bothRevealed (roundAt e (tick st + (r - a)) mid r)) [Suc a..<Suc (a + n)]),
      st\<lparr>tick := Suc (tick st + n)\<rparr>)" for acc'
    using Suc.IH [of "await st" "Suc a" acc'] f m st by simp
  show ?case
    unfolding upt
    by (cases "roundAt e (tick st) mid a")
       (simp_all add: getRound_def ih del: upt_Suc)
qed

lemma length_filter_upt_last:
  assumes "1 \<le> n" and "\<not> P n"
  shows "length (filter P [1..<Suc n]) < n"
proof -
  have "filter P [1..<Suc n] = filter P [1..<n]"
    using assms by simp
  moreover have "length (filter P [1..<n]) \<le> length [1..<n]"
    by (rule length_filter_le)
  ultimately show ?thesis using assms by simp
qed

lemma finalizeComplete_rounds:
  "rounds (fst (finalizeComplete e st mid p ct m)) =
     map (\<lambda>r. roundResultOf (address st) p r (the (roundAt e (tick st + (r - 1)) mid r)))
         (filter (\<lambda>r. bothRevealed (roundAt e (tick st + (r - 1)) mid r)) [1..<Suc (currentRound m)])"
  using fullRounds_loop_upt [of e st mid p 1 "currentRound m" "[]"]
  by (simp add: finalizeComplete_def Let_def)

lemma finalizeComplete_won:
  "won (fst (finalizeComplete e st mid p ct m)) =
     (ct \<or> (if p then winsP1 m else winsP2 m) > (if p then winsP2 m else winsP1 m))"
  by (simp add: finalizeComplete_def Let_def split: prod.splits)

lemma finalizeComplete_score:
  "score (fst (finalizeComplete e st mid p ct m)) =
     \<lparr>player = (if p then winsP1 m else winsP2 m), opponent = (if p then winsP2 m else winsP1 m)\<rparr>"
  by (simp add: finalizeComplete_def Let_def split: prod.splits)

lemma playMatch_pass_COMPLETE:
  assumes "matchAt e (tick st) mid = Some m" and "state m = MatchState_COMPLETE"
  shows "playMatch_pass wfuel e st mid p ct rr =
     Return (Some (Inr (fst (finalizeComplete e (await st) mid p ct m))),
             snd (finalizeComplete e (await st) mid p ct m))"
  using assms
  by (simp add: playMatch_pass_def getMatch_Some MatchState_COMPLETE_def MatchState_WAITING_def
       split: prod.splits)

lemma playMatch_pass_CANCELLED:
  assumes "matchAt e (tick st) mid = Some m" and "state m = MatchState_CANCELLED"
  shows "playMatch_pass wfuel e st mid p ct rr =
     Return (Some (Inr (cancelledResult mid rr)), await st)"
  using assms
  by (simp add: playMatch_pass_def getMatch_Some MatchState_COMPLETE_def MatchState_WAITING_def
       MatchState_CANCELLED_def)

text \<open>
  C1. When a pass of the loop of \<^verbatim>\<open>playMatch\<close> reads the match as COMPLETE, the call
  returns a result, and its win decision is \<^verbatim>\<open>claimedTimeout || myWins > oppWins\<close>,
  where the win counts are those of the local side and of the other side in the
  snapshot read: with a timeout claimed the decision is "won" whatever the score,
  without one it is "won" exactly when the local count is strictly greater. The score
  reported is that pair of counts.
\<close>

theorem playMatch_win_decision:
  assumes "matchAt e (tick st) mid = Some m" and "state m = MatchState_COMPLETE"
  shows "\<exists>res st'. playMatch_loop (Suc fuel) wfuel e st mid isPlayer1 claimedTimeout roundResults
             = (Some (Inr res), st')
          \<and> won res = (claimedTimeout \<or>
               (if isPlayer1 then winsP1 m else winsP2 m) > (if isPlayer1 then winsP2 m else winsP1 m))
          \<and> (claimedTimeout \<longrightarrow> won res)
          \<and> (\<not> claimedTimeout \<longrightarrow>
               won res = ((if isPlayer1 then winsP1 m else winsP2 m)
                            > (if isPlayer1 then winsP2 m else winsP1 m)))
          \<and> score res = \<lparr>player = (if isPlayer1 then winsP1 m else winsP2 m),
                           opponent = (if isPlayer1 then winsP2 m else winsP1 m)\<rparr>"
  using playMatch_pass_COMPLETE [OF assms]
  by (simp add: finalizeComplete_won finalizeComplete_score)

text \<open>
  The two scenarios of the specification: 3 to 2 for the local player 1 without a
  timeout claim, and 0 to 0 with a timeout claimed by the local player 2.
\<close>

theorem playMatch_win_decision_witness:
  "(\<exists>res st'. playMatch_loop 1 0
        (demo_env (demo_match MatchState_COMPLETE 3 2 5) (\<lambda>r. None) 50 True)
        (demo_agent Map.empty) 7 True False [] = (Some (Inr res), st')
      \<and> won res \<and> score res = \<lparr>player = 3, opponent = 2\<rparr>)
   \<and> (\<exists>res st'. playMatch_loop 1 0
        (demo_env (demo_match MatchState_COMPLETE 0 0 1) (\<lambda>r. None) 50 True)
        (demo_agent Map.empty) 7 False True [] = (Some (Inr res), st')
      \<and> won res \<and> score res = \<lparr>player = 0, opponent = 0\<rparr>)
   \<and> (\<exists>res st'. playMatch_loop 1 0
        (demo_env (demo_match MatchState_COMPLETE 0 0 1) (\<lambda>r. None) 50 True)
        (demo_agent Map.empty) 7 True False [] = (Some (Inr res), st')
      \<and> \<not> won res)"
proof -
  have normal_win: "\<exists>res st'. playMatch_loop 1 0
        (demo_env (demo_match MatchState_COMPLETE 3 2 5) (\<lambda>r. None) 50 True)
        (demo_agent Map.empty) 7 True False [] = (Some (Inr res), st')
      \<and> won res \<and> score res = \<lparr>player = 3, opponent = 2\<rparr>"
    using playMatch_win_decision
            [of "demo_env (demo_match MatchState_COMPLETE 3 2 5) (\<lambda>r. None) 50 True"
                "demo_agent Map.empty" 7 "demo_match MatchState_COMPLETE 3 2 5" 0 0 True False "[]"]
    by (auto simp del: playMatch_loop.simps)
  have timeout_win: "\<exists>res st'. playMatch_loop 1 0
        (demo_env (demo_match MatchState_COMPLETE 0 0 1) (\<lambda>r. None) 50 True)
        (demo_agent Map.empty) 7 False True [] = (Some (Inr res), st')
      \<and> won res \<and> score res = \<lparr>player = 0, opponent = 0\<rparr>"
    using playMatch_win_decision
            [of "demo_env (demo_match MatchState_COMPLETE 0 0 1) (\<lambda>r. None) 50 True"
                "demo_agent Map.empty" 7 "demo_match MatchState_COMPLETE 0 0 1" 0 0 False True "[]"]
    by (auto simp del: playMatch_loop.simps)
  have no_win: "\<exists>res st'. playMatch_loop 1 0
        (demo_env (demo_match MatchState_COMPLETE 0 0 1) (\<lambda>r. None) 50 True)
        (demo_agent Map.empty) 7 True False [] = (Some (Inr res), st')
      \<and> \<not> won res"
    using playMatch_win_decision
            [of "demo_env (demo_match MatchState_COMPLETE 0 0 1) (\<lambda>r. None) 50 True"
                "demo_agent Map.empty" 7 "demo_match MatchState_COMPLETE 0 0 1" 0 0 True False "[]"]
    by (auto simp del: playMatch_loop.simps)
  show ?thesis using normal_win timeout_win no_win by (intro conjI)
qed

text \<open>
  C7. When a pass of the loop of \<^verbatim>\<open>playMatch\<close> reads the match as COMPLETE with final
  round count \<open>N\<close>, it reads the rounds \<open>1, ..., N\<close> in this order (round \<open>r\<close> at
  the \<open>r\<close>-th read after that of the match) and the history it returns consists of
  the results of exactly those rounds whose read shows both choices revealed, in
  ascending order of round number. If \<open>N\<close> is at least 1 and round \<open>N\<close> does not
  show both choices revealed (it was forfeited, or its read failed), the history is
  shorter than \<open>N\<close>.
\<close>

theorem playMatch_round_history:
  assumes "matchAt e (tick st) mid = Some m" and "state m = MatchState_COMPLETE"
  shows "\<exists>res st'. playMatch_loop (Suc fuel) wfuel e st mid isPlayer1 claimedTimeout roundResults
             = (Some (Inr res), st')
          \<and> rounds res =
              map (\<lambda>r. roundResultOf (address st) isPlayer1 r (the (roundAt e (tick st + r) mid r)))
                (filter (\<lambda>r. bothRevealed (roundAt e (tick st + r) mid r))
                   [1..<Suc (currentRound m)])
          \<and> map round (rounds res) =
              filter (\<lambda>r. bothRevealed (roundAt e (tick st + r) mid r)) [1..<Suc (currentRound m)]
          \<and> sorted_wrt (<) (map round (rounds res))
          \<and> (1 \<le> currentRound m
               \<and> \<not> bothRevealed (roundAt e (tick st + currentRound m) mid (currentRound m))
              \<longrightarrow> length (rounds res) < currentRound m)"
proof -
  let ?P = "\<lambda>r. bothRevealed (roundAt e (tick st + r) mid r)"
  let ?res = "fst (finalizeComplete e (await st) mid isPlayer1 claimedTimeout m)"
  have shift: "Suc (tick st) + (r - 1) = tick st + r" if "r \<in> set [1..<Suc (currentRound m)]" for r
    using that by auto
  have f: "filter (\<lambda>r. bothRevealed (roundAt e (Suc (tick st) + (r - 1)) mid r)) [1..<Suc (currentRound m)]
      = filter ?P [1..<Suc (currentRound m)]"
  proof (rule filter_cong [OF refl])
    fix r assume "r \<in> set [1..<Suc (currentRound m)]"
    from shift [OF this]
    show "bothRevealed (roundAt e (Suc (tick st) + (r - 1)) mid r) = ?P r"
      by (simp only:)
  qed
  have g: "map (\<lambda>r. roundResultOf (address st) isPlayer1 r (the (roundAt e (Suc (tick st) + (r - 1)) mid r)))
             (filter ?P [1..<Suc (currentRound m)])
      = map (\<lambda>r. roundResultOf (address st) isPlayer1 r (the (roundAt e (tick st + r) mid r)))
             (filter ?P [1..<Suc (currentRound m)])"
  proof (rule map_cong [OF refl])
    fix r assume "r \<in> set (filter ?P [1..<Suc (currentRound m)])"
    then have "r \<in> set [1..<Suc (currentRound m)]" by simp
    from shift [OF this]
    show "roundResultOf (address st) isPlayer1 r (the (roundAt e (Suc (tick st) + (r - 1)) mid r))
        = roundResultOf (address st) isPlayer1 r (the (roundAt e (tick st + r) mid r))"
      by (simp only:)
  qed
  have r: "rounds ?res =
      map (\<lambda>r. roundResultOf (address st) isPlayer1 r (the (roundAt e (tick st + r) mid r)))
        (filter ?P [1..<Suc (currentRound m)])"
    using finalizeComplete_rounds [of e "await st" mid isPlayer1 claimedTimeout m] f g
    by (simp del: upt_Suc)
  have mr: "map round (rounds ?res) = filter ?P [1..<Suc (currentRound m)]"
    unfolding r by (simp add: roundResultOf_def Let_def comp_def del: upt_Suc)
  have srt: "sorted_wrt (<) (map round (rounds ?res))"
    unfolding mr by (rule sorted_wrt_filter) (simp del: upt_Suc)
  have len: "1 \<le> currentRound m \<and> \<not> ?P (currentRound m) \<longrightarrow> length (rounds ?res) < currentRound m"
    using length_filter_upt_last [of "currentRound m" ?P] unfolding r by simp
  show ?thesis
    using playMatch_pass_COMPLETE [OF assms] r mr srt len by simp
qed


text \<open>
  A match of three rounds: rounds 1 and 2 were played out, round 3 was forfeited at
  the commit phase. The history holds rounds 1 and 2.
\<close>

theorem playMatch_round_history_witness:
  "\<exists>res st'. playMatch_loop 1 0
        (demo_env (demo_match MatchState_COMPLETE 1 1 3)
           (\<lambda>r. if r = 3 then Some (demo_round ''0x01'' ZERO_BYTES32 0 0 RoundPhase_COMMIT 100)
                 else Some (demo_round ''0x01'' ''0x02'' 1 3 RoundPhase_COMPLETE 100)) 50 True)
        (demo_agent Map.empty) 7 True True [] = (Some (Inr res), st')
      \<and> map round (rounds res) = [1, 2] \<and> length (rounds res) < 3"
  using playMatch_round_history
          [of "demo_env (demo_match MatchState_COMPLETE 1 1 3)
                 (\<lambda>r. if r = 3 then Some (demo_round ''0x01'' ZERO_BYTES32 0 0 RoundPhase_COMMIT 100)
                       else Some (demo_round ''0x01'' ''0x02'' 1 3 RoundPhase_COMPLETE 100)) 50 True"
              "demo_agent Map.empty" 7 "demo_match MatchState_COMPLETE 1 1 3" 0 0 True True "[]"]
  by (auto simp add: upt_rec numeral_2_eq_2 simp del: playMatch_loop.simps)

text \<open>
  C9, as the code has it. When a pass of the loop of \<^verbatim>\<open>playMatch\<close> reads the match as
  CANCELLED, the call returns, without an error, the result with \<^verbatim>\<open>won\<close> false,
  score 0 to 0 and the prize text \<^verbatim>\<open>"0.00 USDC (refunded)"\<close>; its rounds are those
  collected during play and its opponent address is \<^verbatim>\<open>"N/A"\<close>.
\<close>

theorem playMatch_cancelled:
  assumes "matchAt e (tick st) mid = Some m" and "state m = MatchState_CANCELLED"
  shows "playMatch_loop (Suc fuel) wfuel e st mid isPlayer1 claimedTimeout roundResults
             = (Some (Inr (cancelledResult mid roundResults)), await st)
          \<and> won (cancelledResult mid roundResults) = False
          \<and> score (cancelledResult mid roundResults) = \<lparr>player = 0, opponent = 0\<rparr>
          \<and> prize (cancelledResult mid roundResults) = ''0.00 USDC (refunded)''
          \<and> rounds (cancelledResult mid roundResults) = roundResults
          \<and> opponentAddress (cancelledResult mid roundResults) = ''N/A''"
  using playMatch_pass_CANCELLED [OF assms] by (simp add: cancelledResult_def)

theorem playMatch_cancelled_witness:
  "playMatch_loop 1 0 (demo_env (demo_match MatchState_CANCELLED 0 0 0) (\<lambda>r. None) 50 True)
      (demo_agent Map.empty) 7 True True []
     = (Some (Inr (cancelledResult 7 [])), await (demo_agent Map.empty))
   \<and> won (cancelledResult 7 []) = False"
  using playMatch_cancelled
          [of "demo_env (demo_match MatchState_CANCELLED 0 0 0) (\<lambda>r. None) 50 True"
              "demo_agent Map.empty" 7 "demo_match MatchState_CANCELLED 0 0 0" 0 0 True True "[]"]
  by simp

text \<open>
  The prize text of a cancelled match is not \<^verbatim>\<open>"0.00"\<close>: the amount is followed by the
  unit and a note.
\<close>

theorem playMatch_cancelled_prize_counterexample:
  "playMatch_loop 1 0 demo_cancelled_env demo_fresh 7 True False []
     = (Some (Inr (cancelledResult 7 [])), await demo_fresh)
   \<and> prize (cancelledResult 7 []) = ''0.00 USDC (refunded)''
   \<and> prize (cancelledResult 7 []) \<noteq> ''0.00''"
  by (simp add: playMatch_pass_def getMatch_def cancelledResult_def demo_cancelled_env_def
        MatchState_WAITING_def MatchState_COMPLETE_def MatchState_CANCELLED_def)

lemma fullRounds_loop_sent: "sent (snd (fullRounds_loop e st mid p rs acc)) = sent st"
  by (induction rs arbitrary: st acc) (auto simp: getRound_def split: option.splits)

lemma finalizeComplete_sent: "sent (snd (finalizeComplete e st mid p ct m)) = sent st"
  by (simp add: finalizeComplete_def Let_def case_prod_beta fullRounds_loop_sent del: upt_Suc)

lemma waitActive_loop_sent: "sent (snd (waitActive_loop fuel e st mid start)) = sent st"
  by (induction fuel arbitrary: st) (auto simp: getMatch_def split: option.splits)

lemma playMatch_pass_Return:
  assumes "playMatch_pass wfuel e st mid p ct rr = Return (Some (Inr res), st')"
  shows "sent st' = sent st \<and>
     (\<exists>m. matchAt e (tick st) mid = Some m \<and>
        (state m = MatchState_CANCELLED \<and> res = cancelledResult mid rr \<or>
         state m = MatchState_COMPLETE \<and> res = fst (finalizeComplete e (await st) mid p ct m)))"
proof (cases "matchAt e (tick st) mid")
  case None
  then show ?thesis using assms by (simp add: playMatch_pass_def getMatch_def)
next
  case (Some m)
  consider (waiting) "state m = MatchState_WAITING"
    | (complete) "state m = MatchState_COMPLETE"
    | (cancelled) "state m = MatchState_CANCELLED"
    | (playing) "state m \<noteq> MatchState_WAITING" "state m \<noteq> MatchState_COMPLETE"
        "state m \<noteq> MatchState_CANCELLED"
    by blast
  then show ?thesis
  proof cases
    case waiting
    then show ?thesis using assms Some by (simp add: playMatch_pass_def getMatch_def)
  next
    case complete
    then show ?thesis using assms Some finalizeComplete_sent [of e "await st" mid p ct m]
      by (auto simp: playMatch_pass_def getMatch_def MatchState_WAITING_def
            MatchState_COMPLETE_def split: prod.splits)
  next
    case cancelled
    then show ?thesis using assms Some
      by (auto simp: playMatch_pass_def getMatch_def MatchState_WAITING_def
            MatchState_COMPLETE_def MatchState_CANCELLED_def)
  next
    case playing
    then show ?thesis using assms Some
      by (auto simp: playMatch_pass_def getMatch_def getRound_def Let_def
          split: option.splits sum.splits prod.splits if_splits)
  qed
qed

lemma playMatch_pass_Continue:
  assumes "playMatch_pass wfuel e st mid p ct rr = Continue (st', ct', rr')"
  shows "\<exists>txs. sent st' = sent st @ txs \<and> (ct' \<longleftrightarrow> ct \<or> claim_confirmed e mid txs)"
proof (cases "matchAt e (tick st) mid")
  case None
  then show ?thesis using assms by (simp add: playMatch_pass_def getMatch_def)
next
  case (Some m)
  consider (waiting) "state m = MatchState_WAITING"
    | (complete) "state m \<noteq> MatchState_WAITING" "state m = MatchState_COMPLETE"
    | (cancelled) "state m \<noteq> MatchState_WAITING" "state m \<noteq> MatchState_COMPLETE"
        "state m = MatchState_CANCELLED"
    | (playing) "state m \<noteq> MatchState_WAITING" "state m \<noteq> MatchState_COMPLETE"
        "state m \<noteq> MatchState_CANCELLED"
    by blast
  then show ?thesis
  proof cases
    case waiting
    then show ?thesis using assms Some by (auto simp: playMatch_pass_def getMatch_def)
  next
    case complete
    then show ?thesis using assms Some
      by (auto simp: playMatch_pass_def getMatch_def split: prod.splits)
  next
    case cancelled
    then show ?thesis using assms Some by (auto simp: playMatch_pass_def getMatch_def)
  next
    case playing
    let ?st1 = "await st"
    show ?thesis
    proof (cases "roundAt e (tick ?st1) mid (currentRound m)")
      case None
      then show ?thesis using assms Some playing
        by (simp add: playMatch_pass_def getMatch_def getRound_def)
    next
      case rd: (Some rd)
      let ?st2 = "await ?st1"
      have pass: "playMatch_pass wfuel e st mid p ct rr =
        (if phase rd = RoundPhase_COMMIT then
           (let myCommit = (if p then commitP1 rd else commitP2 rd)
            in case (if myCommit =
                          ''0x0000000000000000000000000000000000000000000000000000000000000000''
                     then commit e ?st2 mid (pickRandomChoice e ?st2)
                     else (Inr [], ?st2)) of
                 (Inl err, st3) \<Rightarrow> Return (Some (Inl err), st3)
               | (Inr h, st3) \<Rightarrow>
                   (case waitForPhase wfuel e st3 mid RoundPhase_REVEAL 180000 of
                      (None, st4) \<Rightarrow> Return (None, st4)
                    | (Some (Inl err), st4) \<Rightarrow> Return (Some (Inl err), st4)
                    | (Some (Inr result), st4) \<Rightarrow>
                        if result = W_timeout_claimed
                        then Continue (st4, True, rr)
                        else Continue (st4, ct, rr)))
         else if phase rd = RoundPhase_REVEAL then
           (let myC = (if p then choiceP1 rd else choiceP2 rd)
            in case (if myC = Choice None_choice then reveal e ?st2 mid
                     else (Inr [], ?st2)) of
                 (Inl err, st3) \<Rightarrow> Return (Some (Inl err), st3)
               | (Inr h, st3) \<Rightarrow>
                   (case getRound e (await st3) mid (currentRound m) of
                      (Inl err, st4) \<Rightarrow> Continue (st4, ct, rr)
                    | (Inr completedRound, st4) \<Rightarrow>
                        if phase completedRound = RoundPhase_COMPLETE
                        then Continue (st4, ct,
                               rr @ [roundResultOf (address st4) p (currentRound m) completedRound])
                        else Continue (st4, ct, rr)))
         else Continue (await ?st2, ct, rr))"
        using Some rd playing by (simp add: playMatch_pass_def getMatch_def getRound_def)
      consider (commit) "phase rd = RoundPhase_COMMIT"
        | (reveal) "phase rd \<noteq> RoundPhase_COMMIT" "phase rd = RoundPhase_REVEAL"
        | (other) "phase rd \<noteq> RoundPhase_COMMIT" "phase rd \<noteq> RoundPhase_REVEAL"
        by blast
      then show ?thesis
      proof cases
        case commit
        let ?B = "(if p then commitP1 rd else commitP2 rd) =
                    ''0x0000000000000000000000000000000000000000000000000000000000000000''"
        have "\<exists>st3 txs1. sent st3 = sent st @ txs1 \<and> \<not> claim_confirmed e mid txs1 \<and>
           playMatch_pass wfuel e st mid p ct rr =
             (case waitForPhase wfuel e st3 mid RoundPhase_REVEAL 180000 of
                      (None, st4) \<Rightarrow> Return (None, st4)
                    | (Some (Inl err), st4) \<Rightarrow> Return (Some (Inl err), st4)
                    | (Some (Inr result), st4) \<Rightarrow>
                        if result = W_timeout_claimed
                        then Continue (st4, True, rr)
                        else Continue (st4, ct, rr))"
        proof (cases ?B)
          case True
          obtain r3 st3 where c3: "commit e ?st2 mid (pickRandomChoice e ?st2) = (r3, st3)"
            by (cases "commit e ?st2 mid (pickRandomChoice e ?st2)")
          from commit_sent [OF c3, of mid] obtain txs1 where
            1: "sent st3 = sent st @ txs1" "\<not> claim_confirmed e mid txs1"
            by auto
          obtain h where r3: "r3 = Inr h"
            using assms pass commit True c3 by (cases r3) (simp_all add: Let_def)
          have "playMatch_pass wfuel e st mid p ct rr =
             (case waitForPhase wfuel e st3 mid RoundPhase_REVEAL 180000 of
                      (None, st4) \<Rightarrow> Return (None, st4)
                    | (Some (Inl err), st4) \<Rightarrow> Return (Some (Inl err), st4)
                    | (Some (Inr result), st4) \<Rightarrow>
                        if result = W_timeout_claimed
                        then Continue (st4, True, rr)
                        else Continue (st4, ct, rr))"
            using pass commit True c3 r3 by (simp add: Let_def)
          with 1 show ?thesis by blast
        next
          case False
          have "playMatch_pass wfuel e st mid p ct rr =
             (case waitForPhase wfuel e ?st2 mid RoundPhase_REVEAL 180000 of
                      (None, st4) \<Rightarrow> Return (None, st4)
                    | (Some (Inl err), st4) \<Rightarrow> Return (Some (Inl err), st4)
                    | (Some (Inr result), st4) \<Rightarrow>
                        if result = W_timeout_claimed
                        then Continue (st4, True, rr)
                        else Continue (st4, ct, rr))"
            using pass commit False by (simp add: Let_def)
          moreover have "sent ?st2 = sent st @ []" "\<not> claim_confirmed e mid []" by simp_all
          ultimately show ?thesis by blast
        qed
        then obtain st3 txs1 where 1: "sent st3 = sent st @ txs1" "\<not> claim_confirmed e mid txs1"
          and pass3: "playMatch_pass wfuel e st mid p ct rr =
             (case waitForPhase wfuel e st3 mid RoundPhase_REVEAL 180000 of
                      (None, st4) \<Rightarrow> Return (None, st4)
                    | (Some (Inl err), st4) \<Rightarrow> Return (Some (Inl err), st4)
                    | (Some (Inr result), st4) \<Rightarrow>
                        if result = W_timeout_claimed
                        then Continue (st4, True, rr)
                        else Continue (st4, ct, rr))"
          by blast
        obtain w st4 where w: "waitForPhase wfuel e st3 mid RoundPhase_REVEAL 180000 = (w, st4)"
          by (cases "waitForPhase wfuel e st3 mid RoundPhase_REVEAL 180000")
        from waitForPhase_loop_confirmed [OF w [unfolded waitForPhase_def]] obtain txs2 where
          2: "sent st4 = sent st3 @ txs2"
             "claim_confirmed e mid txs2 \<longleftrightarrow> w = Some (Inr W_timeout_claimed)"
          by blast
        have "st' = st4 \<and> (ct' \<longleftrightarrow> ct \<or> w = Some (Inr W_timeout_claimed))"
          using assms pass3 w
          by (auto split: option.splits sum.splits if_splits)
        then have "sent st' = sent st @ (txs1 @ txs2)"
          and "ct' \<longleftrightarrow> ct \<or> claim_confirmed e mid (txs1 @ txs2)"
          using 1 2 by simp_all
        then show ?thesis by blast
      next
        case reveal
        let ?B = "(if p then choiceP1 rd else choiceP2 rd) = Choice None_choice"
        have "\<exists>st3 txs1. sent st3 = sent st @ txs1 \<and> \<not> claim_confirmed e mid txs1 \<and>
           playMatch_pass wfuel e st mid p ct rr =
                   (case getRound e (await st3) mid (currentRound m) of
                      (Inl err, st4) \<Rightarrow> Continue (st4, ct, rr)
                    | (Inr completedRound, st4) \<Rightarrow>
                        if phase completedRound = RoundPhase_COMPLETE
                        then Continue (st4, ct,
                               rr @ [roundResultOf (address st4) p (currentRound m) completedRound])
                        else Continue (st4, ct, rr))"
        proof (cases ?B)
          case True
          obtain r3 st3 where c3: "reveal e ?st2 mid = (r3, st3)"
            by (cases "reveal e ?st2 mid")
          from reveal_sent [OF c3, of mid] obtain txs1 where
            1: "sent st3 = sent st @ txs1" "\<not> claim_confirmed e mid txs1"
            by auto
          obtain h where r3: "r3 = Inr h"
            using assms pass reveal True c3 by (cases r3) (simp_all add: Let_def)
          have "playMatch_pass wfuel e st mid p ct rr =
                   (case getRound e (await st3) mid (currentRound m) of
                      (Inl err, st4) \<Rightarrow> Continue (st4, ct, rr)
                    | (Inr completedRound, st4) \<Rightarrow>
                        if phase completedRound = RoundPhase_COMPLETE
                        then Continue (st4, ct,
                               rr @ [roundResultOf (address st4) p (currentRound m) completedRound])
                        else Continue (st4, ct, rr))"
            using pass reveal True c3 r3 by (simp add: Let_def)
          with 1 show ?thesis by blast
        next
          case False
          have "playMatch_pass wfuel e st mid p ct rr =
                   (case getRound e (await ?st2) mid (currentRound m) of
                      (Inl err, st4) \<Rightarrow> Continue (st4, ct, rr)
                    | (Inr completedRound, st4) \<Rightarrow>
                        if phase completedRound = RoundPhase_COMPLETE
                        then Continue (st4, ct,
                               rr @ [roundResultOf (address st4) p (currentRound m) completedRound])
                        else Continue (st4, ct, rr))"
            using pass reveal False by (simp add: Let_def)
          moreover have "sent ?st2 = sent st @ []" "\<not> claim_confirmed e mid []" by simp_all
          ultimately show ?thesis by blast
        qed
        then obtain st3 txs1 where 1: "sent st3 = sent st @ txs1" "\<not> claim_confirmed e mid txs1"
          and pass3: "playMatch_pass wfuel e st mid p ct rr =
                   (case getRound e (await st3) mid (currentRound m) of
                      (Inl err, st4) \<Rightarrow> Continue (st4, ct, rr)
                    | (Inr completedRound, st4) \<Rightarrow>
                        if phase completedRound = RoundPhase_COMPLETE
                        then Continue (st4, ct,
                               rr @ [roundResultOf (address st4) p (currentRound m) completedRound])
                        else Continue (st4, ct, rr))"
          by blast
        have "sent st' = sent st3 \<and> ct' = ct"
          using assms pass3
          by (auto simp: getRound_def split: option.splits if_splits)
        then show ?thesis using 1 by auto
      next
        case other
        then show ?thesis using assms pass by auto
      qed
    qed
  qed
qed

lemma playMatch_loop_outcome:
  "playMatch_loop fuel wfuel e st mid p ct rr = (Some (Inr res), st') \<Longrightarrow>
     \<exists>txs m t. sent st' = sent st @ txs \<and> matchAt e t mid = Some m \<and>
       (state m = MatchState_CANCELLED \<and> (\<exists>rr'. res = cancelledResult mid rr') \<or>
        state m = MatchState_COMPLETE \<and>
          won res = (ct \<or> claim_confirmed e mid txs \<or>
             (if p then winsP1 m else winsP2 m) > (if p then winsP2 m else winsP1 m)))"
proof (induction fuel arbitrary: st ct rr)
  case 0
  then show ?case by simp
next
  case (Suc fuel)
  show ?case
  proof (cases "playMatch_pass wfuel e st mid p ct rr")
    case (Return x)
    then have x: "x = (Some (Inr res), st')" using Suc.prems by simp
    from playMatch_pass_Return [OF Return [unfolded x]]
    obtain m where s: "sent st' = sent st @ []" and m: "matchAt e (tick st) mid = Some m"
      and d: "state m = MatchState_CANCELLED \<and> res = cancelledResult mid rr \<or>
         state m = MatchState_COMPLETE \<and> res = fst (finalizeComplete e (await st) mid p ct m)"
      by auto
    from d have "state m = MatchState_CANCELLED \<and> (\<exists>rr'. res = cancelledResult mid rr') \<or>
        state m = MatchState_COMPLETE \<and>
          won res = (ct \<or> claim_confirmed e mid [] \<or>
             (if p then winsP1 m else winsP2 m) > (if p then winsP2 m else winsP1 m))"
      by (auto simp: finalizeComplete_won)
    with s m show ?thesis by blast
  next
    case (Continue y)
    obtain st1 ct1 rr1 where y: "y = (st1, ct1, rr1)" by (cases y)
    from playMatch_pass_Continue [OF Continue [unfolded y]] obtain txs1 where
      1: "sent st1 = sent st @ txs1" "ct1 \<longleftrightarrow> ct \<or> claim_confirmed e mid txs1"
      by blast
    have run: "playMatch_loop fuel wfuel e st1 mid p ct1 rr1 = (Some (Inr res), st')"
      using Suc.prems Continue y by simp
    from Suc.IH [OF run] obtain txs2 m t where
      2: "sent st' = sent st1 @ txs2" "matchAt e t mid = Some m"
         "state m = MatchState_CANCELLED \<and> (\<exists>rr'. res = cancelledResult mid rr') \<or>
          state m = MatchState_COMPLETE \<and>
            won res = (ct1 \<or> claim_confirmed e mid txs2 \<or>
               (if p then winsP1 m else winsP2 m) > (if p then winsP2 m else winsP1 m))"
      by blast
    have "sent st' = sent st @ (txs1 @ txs2)" using 1 2 by simp
    moreover have "state m = MatchState_CANCELLED \<and> (\<exists>rr'. res = cancelledResult mid rr') \<or>
          state m = MatchState_COMPLETE \<and>
            won res = (ct \<or> claim_confirmed e mid (txs1 @ txs2) \<or>
               (if p then winsP1 m else winsP2 m) > (if p then winsP2 m else winsP1 m))"
      using 1 2 by auto
    ultimately show ?thesis using 2(2) by blast
  qed
qed

text \<open>
  The whole call: when \<^verbatim>\<open>playMatch\<close> returns a result, it has read the match as
  CANCELLED and returns the cancelled outcome, or it has read it as COMPLETE and reports
  "won" exactly when one of the timeout claims it submitted during the call was
  confirmed or the local win count in that snapshot is strictly greater than the
  opponent's.
\<close>

theorem playMatch_outcome:
  assumes "playMatch fuel wfuel e st mid p = (Some (Inr res), st')"
  shows "\<exists>txs m t. sent st' = sent st @ txs \<and> matchAt e t mid = Some m \<and>
       (state m = MatchState_CANCELLED \<and> (\<exists>rr'. res = cancelledResult mid rr') \<or>
        state m = MatchState_COMPLETE \<and>
          won res = (claim_confirmed e mid txs \<or>
             (if p then winsP1 m else winsP2 m) > (if p then winsP2 m else winsP1 m)))"
proof -
  obtain w st1 where w: "waitActive_loop fuel e st mid (clockAt e (tick st)) = (w, st1)"
    by (cases "waitActive_loop fuel e st mid (clockAt e (tick st))")
  have s1: "sent st1 = sent st"
    using waitActive_loop_sent [of fuel e st mid "clockAt e (tick st)"] w by simp
  have "playMatch_loop fuel wfuel e st1 mid p False [] = (Some (Inr res), st')"
    using assms w by (auto simp: playMatch_def split: option.splits sum.splits)
  from playMatch_loop_outcome [OF this] show ?thesis using s1 by simp
qed

text \<open>
  A whole call on the forfeit ledger, as player 2: the agent finds its commitment in
  place, waits, claims the timeout one second after the deadline, reads the match as
  COMPLETE at 0 to 0 and reports a win with the prize of 98 percent of twice the fee.
\<close>

lemma demo_forfeit_env_simps [simp]:
  "matchAt demo_forfeit_env t mid =
     Some (demo_match (if t < 8 then MatchState_ACTIVE else MatchState_COMPLETE) 0 0 1)"
  "roundAt demo_forfeit_env t mid r = Some (demo_round ZERO_BYTES32 ''0x07'' 0 0 RoundPhase_COMMIT 100)"
  "blockAt demo_forfeit_env t = Some 101"
  "txAt demo_forfeit_env t = Accepted ''0xfeed'' (Status True)"
  "clockAt demo_forfeit_env t = 101000"
  "formatUsdc demo_forfeit_env 1960000 = ''1.96''"
  by (simp_all add: demo_forfeit_env_def demo_formatUsdc_def show_nat.simps digit_char_def)

lemma demo_forfeit_waitActive:
  "waitActive_loop 2 demo_forfeit_env demo_player2 7 101000 = (Some (Inr ()), demo_player2\<lparr>tick := 1\<rparr>)"
  by (simp add: numeral_2_eq_2 getMatch_def await_def demo_player2_def MatchState_ACTIVE_def)

lemma demo_forfeit_pass1:
  "playMatch_pass 1 demo_forfeit_env (demo_player2\<lparr>tick := 1\<rparr>) 7 False False [] =
     Continue (demo_player2\<lparr>tick := 8, sent := [(6, ClaimTimeoutTx 7)]\<rparr>, True, [])"
  by (simp add: playMatch_pass_def waitForPhase_def waitForPhase_poll_def
        getMatch_def getRound_def getBlock_def claimTimeout_def sendTx_def
        await_def Let_def demo_player2_def
        MatchState_WAITING_def MatchState_ACTIVE_def MatchState_COMPLETE_def
        MatchState_CANCELLED_def RoundPhase_COMMIT_def RoundPhase_REVEAL_def ZERO_BYTES32_def)

lemma demo_forfeit_pass2:
  "playMatch_pass 1 demo_forfeit_env (demo_player2\<lparr>tick := 8, sent := [(6, ClaimTimeoutTx 7)]\<rparr>) 7 False True [] =
     Return (Some (Inr \<lparr>matchId = 7, won = True, score = \<lparr>player = 0, opponent = 0\<rparr>, rounds = [],
                 prize = ''1.96 USDC'', opponentAddress = ''0xaa''\<rparr>),
      demo_player2\<lparr>tick := 10, sent := [(6, ClaimTimeoutTx 7)]\<rparr>)"
  by (simp add: playMatch_pass_def finalizeComplete_def
        getMatch_def getRound_def
        await_def Let_def demo_player2_def
        MatchState_WAITING_def MatchState_ACTIVE_def MatchState_COMPLETE_def
        MatchState_CANCELLED_def)


lemma demo_forfeit_run:
  "playMatch 2 1 demo_forfeit_env demo_player2 7 False =
     (Some (Inr \<lparr>matchId = 7, won = True, score = \<lparr>player = 0, opponent = 0\<rparr>, rounds = [],
                 prize = ''1.96 USDC'', opponentAddress = ''0xaa''\<rparr>),
      demo_player2\<lparr>tick := 10, sent := [(6, ClaimTimeoutTx 7)]\<rparr>)"
proof -
  have "tick demo_player2 = 0" by (simp add: demo_player2_def)
  then have "playMatch 2 1 demo_forfeit_env demo_player2 7 False =
      playMatch_loop 2 1 demo_forfeit_env (demo_player2\<lparr>tick := 1\<rparr>) 7 False False []"
    by (simp add: playMatch_def demo_forfeit_waitActive)
  also have "\<dots> = playMatch_loop 1 1 demo_forfeit_env
                      (demo_player2\<lparr>tick := 8, sent := [(6, ClaimTimeoutTx 7)]\<rparr>) 7 False True []"
    using demo_forfeit_pass1 by (simp add: numeral_2_eq_2)
  also have "\<dots> = (Some (Inr \<lparr>matchId = 7, won = True, score = \<lparr>player = 0, opponent = 0\<rparr>,
                 rounds = [], prize = ''1.96 USDC'', opponentAddress = ''0xaa''\<rparr>),
      demo_player2\<lparr>tick := 10, sent := [(6, ClaimTimeoutTx 7)]\<rparr>)"
    using demo_forfeit_pass2 by simp
  finally show ?thesis .
qed

end
